theory Spec2Isabelle
  imports Main "HOL-Library.Multiset" "HOL-Library.Sublist"
begin

section \<open>Card model (backend/internal/poker/card.go)\<close>

text \<open>
  Go declares \<^verbatim>\<open>type Suit int\<close> and \<^verbatim>\<open>type Rank int\<close> with \<^verbatim>\<open>iota\<close> constants, and the
  straight detector does arithmetic on ranks, so both are integers here. No value in
  this program comes near the bounds of a 64-bit \<^verbatim>\<open>int\<close>.
\<close>

type_synonym Suit = int
type_synonym Rank = int

definition Hearts :: Suit where "Hearts = 0"
definition Diamonds :: Suit where "Diamonds = 1"
definition Clubs :: Suit where "Clubs = 2"
definition Spades :: Suit where "Spades = 3"

definition Two :: Rank where "Two = 2"
definition Three :: Rank where "Three = 3"
definition Four :: Rank where "Four = 4"
definition Five :: Rank where "Five = 5"
definition Six :: Rank where "Six = 6"
definition Seven :: Rank where "Seven = 7"
definition Eight :: Rank where "Eight = 8"
definition Nine :: Rank where "Nine = 9"
definition Ten :: Rank where "Ten = 10"
definition Jack :: Rank where "Jack = 11"
definition Queen :: Rank where "Queen = 12"
definition King :: Rank where "King = 13"
definition Ace :: Rank where "Ace = 14"

record Card =
  Suit :: Suit
  Rank :: Rank
  Str :: string

text \<open>A panic of the Go runtime or an explicit \<^verbatim>\<open>panic(...)\<close> call is a value.\<close>

datatype panic =
    IndexOutOfRange
  | RequiresSevenCards
  | HeroHoleLength
  | CommunityLength
  | NumOpponentsTooSmall
  | InvalidAddress

definition suitChar :: "Suit \<Rightarrow> char" where
  "suitChar s =
     (if s = Hearts then CHR ''H'' else if s = Diamonds then CHR ''D''
      else if s = Clubs then CHR ''C'' else if s = Spades then CHR ''S''
      else CHR 0x00)"

definition rankChar :: "Rank \<Rightarrow> char" where
  "rankChar r =
     (if r = Two then CHR ''2'' else if r = Three then CHR ''3''
      else if r = Four then CHR ''4'' else if r = Five then CHR ''5''
      else if r = Six then CHR ''6'' else if r = Seven then CHR ''7''
      else if r = Eight then CHR ''8'' else if r = Nine then CHR ''9''
      else if r = Ten then CHR ''T'' else if r = Jack then CHR ''J''
      else if r = Queen then CHR ''Q'' else if r = King then CHR ''K''
      else if r = Ace then CHR ''A'' else CHR 0x00)"

definition formatCard :: "Suit \<Rightarrow> Rank \<Rightarrow> string" where
  "formatCard s r = [suitChar s, rankChar r]"

definition mkCard :: "Suit \<Rightarrow> Rank \<Rightarrow> Card" where
  "mkCard s r = \<lparr>Suit = s, Rank = r, Str = formatCard s r\<rparr>"

text \<open>\<^verbatim>\<open>FullDeck\<close>: suit-major, rank-minor, 52 cards.\<close>

definition FullDeck :: "Card list" where
  "FullDeck =
     concat (map (\<lambda>s. map (\<lambda>r. mkCard s r)
                   [Two, Three, Four, Five, Six, Seven, Eight, Nine, Ten, Jack, Queen, King, Ace])
                 [Hearts, Diamonds, Clubs, Spades])"

section \<open>Hand values and the comparator (backend/internal/poker/hand\_eval.go)\<close>

definition HighCard :: int where "HighCard = 0"
definition OnePair :: int where "OnePair = 1"
definition TwoPair :: int where "TwoPair = 2"
definition ThreeOfAKind :: int where "ThreeOfAKind = 3"
definition Straight :: int where "Straight = 4"
definition Flush :: int where "Flush = 5"
definition FullHouse :: int where "FullHouse = 6"
definition FourOfAKind :: int where "FourOfAKind = 7"
definition StraightFlush :: int where "StraightFlush = 8"

record HandValue =
  Category :: int
  Kickers :: "Rank list"

text \<open>
  The kicker loop of \<^verbatim>\<open>CompareHandValues\<close>: it walks both slices while both have an
  element, and the lengths decide when one runs out.
\<close>

fun compareKickers :: "Rank list \<Rightarrow> Rank list \<Rightarrow> int" where
  "compareKickers (x # xs) (y # ys) =
     (if x > y then 1 else if x < y then - 1 else compareKickers xs ys)"
| "compareKickers [] [] = 0"
| "compareKickers (x # xs) [] = 1"
| "compareKickers [] (y # ys) = - 1"

definition CompareHandValues :: "HandValue \<Rightarrow> HandValue \<Rightarrow> int" where
  "CompareHandValues a b =
     (if Category a \<noteq> Category b then (if Category a > Category b then 1 else - 1)
      else compareKickers (Kickers a) (Kickers b))"

section \<open>The 5-card classifier\<close>

text \<open>
  \<^verbatim>\<open>sort.Slice(xs, less)\<close> under the caller's \<^verbatim>\<open>less\<close>. On a slice of at most 12 elements
  Go runs an insertion sort, which leaves elements that compare equal in their input
  order; the slices this program sorts hold at most five elements. \<open>insertBy\<close> puts
  \<open>x\<close> behind exactly the elements that go before it, so an earlier element stays in
  front of a later one that compares equal.
\<close>

fun insertBy :: "('a \<Rightarrow> 'a \<Rightarrow> bool) \<Rightarrow> 'a \<Rightarrow> 'a list \<Rightarrow> 'a list" where
  "insertBy lt x [] = [x]"
| "insertBy lt x (y # ys) = (if lt y x then y # insertBy lt x ys else x # y # ys)"

definition sortSlice :: "('a \<Rightarrow> 'a \<Rightarrow> bool) \<Rightarrow> 'a list \<Rightarrow> 'a list" where
  "sortSlice lt xs = foldr (insertBy lt) xs []"

text \<open>
  A Go \<^verbatim>\<open>map[K]int\<close> that is later ranged over is an association list in insertion
  order; \<^verbatim>\<open>m[k]++\<close> is \<open>incr\<close>.
\<close>

fun incr :: "'k \<Rightarrow> ('k \<times> int) list \<Rightarrow> ('k \<times> int) list" where
  "incr k [] = [(k, 1)]"
| "incr k ((k', n) # m) = (if k = k' then (k', n + 1) # m else (k', n) # incr k m)"

definition countBy :: "('a \<Rightarrow> 'k) \<Rightarrow> 'a list \<Rightarrow> ('k \<times> int) list" where
  "countBy f xs = foldl (\<lambda>m x. incr (f x) m) [] xs"

definition detectFlush :: "Card list \<Rightarrow> bool \<times> Suit" where
  "detectFlush cards =
     (case find (\<lambda>(s, c). c \<ge> 5) (countBy Suit cards) of
        Some (s, c) \<Rightarrow> (True, s)
      | None \<Rightarrow> (False, Hearts))"

definition filterBySuit :: "Card list \<Rightarrow> Suit \<Rightarrow> Card list" where
  "filterBySuit cards s = filter (\<lambda>c. Suit c = s) cards"

text \<open>A \<^verbatim>\<open>map[Rank]bool\<close> that is only read is a function; a missing key reads false.\<close>

definition markAll :: "Rank list \<Rightarrow> Rank \<Rightarrow> bool" where
  "markAll rs = foldl (\<lambda>m r. m(r := True)) (\<lambda>_. False) rs"

function scanStraight :: "(Rank \<Rightarrow> bool) \<Rightarrow> Rank \<Rightarrow> bool \<times> Rank" where
  "scanStraight seen start =
     (if start \<ge> Five then
        (if list_all (\<lambda>offset. seen (start - int offset)) [0..<5] then (True, start)
         else scanStraight seen (start - 1))
      else (False, Two))"
  by pat_completeness auto
termination
  by (relation "measure (\<lambda>(seen, start). nat (start - Five + 1))") auto

definition detectStraight :: "Card list \<Rightarrow> bool \<times> Rank" where
  "detectStraight cards =
     (let seen = markAll (map Rank cards)
      in if seen Ace \<and> seen Two \<and> seen Three \<and> seen Four \<and> seen Five then (True, Five)
         else scanStraight seen Ace)"

definition ranksOnly :: "Card list \<Rightarrow> Rank list" where
  "ranksOnly cards = map Rank cards"

definition highestDifferentRank :: "Card list \<Rightarrow> Rank list \<Rightarrow> Rank" where
  "highestDifferentRank cards exclude =
     (let ex = markAll exclude
      in case find (\<lambda>c. \<not> ex (Rank c)) cards of Some c \<Rightarrow> Rank c | None \<Rightarrow> Two)"

text \<open>The collecting loop shared by the two kicker helpers: append, then stop at \<open>n\<close>.\<close>

fun collectKickers :: "(Rank \<Rightarrow> bool) \<Rightarrow> nat \<Rightarrow> Card list \<Rightarrow> Rank list \<Rightarrow> Rank list" where
  "collectKickers ex n [] res = res"
| "collectKickers ex n (c # cs) res =
     (let res' = (if \<not> ex (Rank c) then res @ [Rank c] else res)
      in if length res' = n then res' else collectKickers ex n cs res')"

definition topKickersExcluding :: "Card list \<Rightarrow> Rank list \<Rightarrow> nat \<Rightarrow> panic + (Rank \<times> Rank)" where
  "topKickersExcluding cards exclude n =
     (let res = collectKickers (markAll exclude) n cards []
      in if length res < 2 then Inl IndexOutOfRange else Inr (res ! 0, res ! 1))"

definition topThreeKickersExcluding :: "Card list \<Rightarrow> Rank list \<Rightarrow> panic + (Rank \<times> Rank \<times> Rank)" where
  "topThreeKickersExcluding cards exclude =
     (let res = collectKickers (markAll exclude) 3 cards []
      in if length res < 3 then Inl IndexOutOfRange else Inr (res ! 0, res ! 1, res ! 2))"

text \<open>The \<^verbatim>\<open>less\<close> of the second \<^verbatim>\<open>sort.Slice\<close>: count descending, then rank descending.\<close>

definition pairLess :: "Rank \<times> int \<Rightarrow> Rank \<times> int \<Rightarrow> bool" where
  "pairLess p q = (if snd p = snd q then fst p > fst q else snd p > snd q)"

text \<open>
  Lines 87 to 189 of \<^verbatim>\<open>evaluate5\<close>, on the slice that line 83 has sorted. A pair of
  \<open>ps\<close> is (rank, count).
\<close>

definition classifySorted :: "Card list \<Rightarrow> panic + HandValue" where
  "classifySorted cards =
     (let (isFlush, flushSuit) = detectFlush cards;
          (isStr, topStr) = detectStraight cards
      in if isFlush then
           (let flushCards = filterBySuit cards flushSuit;
                (isStrFlush, topStrFlush) = detectStraight flushCards
            in if isStrFlush then Inr \<lparr>Category = StraightFlush, Kickers = [topStrFlush]\<rparr>
               else Inr \<lparr>Category = Flush, Kickers = ranksOnly flushCards\<rparr>)
         else if isStr then Inr \<lparr>Category = Straight, Kickers = [topStr]\<rparr>
         else
           (let ps = sortSlice pairLess (countBy Rank cards)
            in case ps of
                 [] \<Rightarrow> Inl IndexOutOfRange
               | p0 # _ \<Rightarrow>
                   if snd p0 = 4 then
                     Inr \<lparr>Category = FourOfAKind,
                          Kickers = [fst p0, highestDifferentRank cards [fst p0]]\<rparr>
                   else if snd p0 = 3 \<and> length ps > 1 \<and> snd (ps ! 1) \<ge> 2 then
                     Inr \<lparr>Category = FullHouse, Kickers = [fst p0, fst (ps ! 1)]\<rparr>
                   else if snd p0 = 3 then
                     (case topKickersExcluding cards [fst p0] 2 of
                        Inl e \<Rightarrow> Inl e
                      | Inr (k1, k2) \<Rightarrow>
                          Inr \<lparr>Category = ThreeOfAKind, Kickers = [fst p0, k1, k2]\<rparr>)
                   else if snd p0 = 2 \<and> length ps > 1 \<and> snd (ps ! 1) = 2 then
                     (let highPair = (if fst (ps ! 1) > fst p0 then fst (ps ! 1) else fst p0);
                          lowPair = (if fst (ps ! 1) > fst p0 then fst p0 else fst (ps ! 1))
                      in Inr \<lparr>Category = TwoPair,
                              Kickers = [highPair, lowPair,
                                         highestDifferentRank cards [highPair, lowPair]]\<rparr>)
                   else if snd p0 = 2 then
                     (case topThreeKickersExcluding cards [fst p0] of
                        Inl e \<Rightarrow> Inl e
                      | Inr (k1, k2, k3) \<Rightarrow>
                          Inr \<lparr>Category = OnePair, Kickers = [fst p0, k1, k2, k3]\<rparr>)
                   else Inr \<lparr>Category = HighCard, Kickers = ranksOnly cards\<rparr>))"

definition rankDesc :: "Card \<Rightarrow> Card \<Rightarrow> bool" where
  "rankDesc a b = (Rank a > Rank b)"

definition evaluate5 :: "Card list \<Rightarrow> panic + HandValue" where
  "evaluate5 cards = classifySorted (sortSlice rankDesc cards)"

section \<open>The best hand of seven cards\<close>

text \<open>
  The closure \<^verbatim>\<open>next\<close>: \<open>n = 7\<close>, \<open>k = 5\<close>. \<open>nextFrom (Suc i)\<close> is the loop body at Go's
  \<open>i\<close>, \<open>nextFrom 0\<close> the exit with \<^verbatim>\<open>false\<close>. The inner loop runs \<open>j\<close> over \<open>i+1 .. k-1\<close>.
\<close>

definition resetTail :: "nat \<Rightarrow> nat list \<Rightarrow> nat list" where
  "resetTail i indexes = fold (\<lambda>j ix. ix[j := ix ! (j - 1) + 1]) [i + 1..<5] indexes"

fun nextFrom :: "nat \<Rightarrow> nat list \<Rightarrow> nat list option" where
  "nextFrom 0 indexes = None"
| "nextFrom (Suc i) indexes =
     (if indexes ! i \<noteq> i + 7 - 5 then Some (resetTail i (indexes[i := indexes ! i + 1]))
      else nextFrom i indexes)"

definition nextIndexes :: "nat list \<Rightarrow> nat list option" where
  "nextIndexes indexes = nextFrom 5 indexes"

text \<open>
  The closure \<^verbatim>\<open>evalCombo\<close>: five reads of \<open>indexes\<close> and five of \<open>cards\<close>, each of which
  panics out of range, then a fresh 5-card slice handed to \<open>evaluate5\<close>.
\<close>

definition evalCombo :: "Card list \<Rightarrow> nat list \<Rightarrow> panic + HandValue" where
  "evalCombo cards indexes =
     (if length indexes < 5 then Inl IndexOutOfRange
      else if list_ex (\<lambda>i. length cards \<le> i) (take 5 indexes) then Inl IndexOutOfRange
      else evaluate5 [cards ! (indexes ! 0), cards ! (indexes ! 1), cards ! (indexes ! 2),
                      cards ! (indexes ! 3), cards ! (indexes ! 4)])"

text \<open>
  The loop \<^verbatim>\<open>for next() { ... }\<close> ends: each step moves \<open>indexes\<close> up in the
  lexicographic order, and \<open>evalCombo\<close> panics once an index leaves \<open>cards\<close>.
\<close>

lemma length_resetTail_aux: "length (fold (\<lambda>j ix. ix[j := ix ! (j - 1) + 1]) js xs) = length xs"
  by (induction js arbitrary: xs) auto

lemma length_resetTail [simp]: "length (resetTail i xs) = length xs"
  unfolding resetTail_def by (rule length_resetTail_aux)

lemma nth_resetTail_aux:
  "\<forall>j\<in>set js. k < j \<Longrightarrow> fold (\<lambda>j ix. ix[j := ix ! (j - 1) + 1]) js xs ! k = xs ! k"
  by (induction js arbitrary: xs) auto

lemma nth_resetTail: "k \<le> i \<Longrightarrow> resetTail i xs ! k = xs ! k"
  unfolding resetTail_def by (rule nth_resetTail_aux) simp

lemma nextFrom_step:
  "nextFrom n ix = Some ix' \<Longrightarrow> n \<le> length ix \<Longrightarrow>
     length ix' = length ix \<and> (\<exists>i<n. ix' ! i = ix ! i + 1 \<and> (\<forall>j<i. ix' ! j = ix ! j))"
proof (induction n)
  case 0
  then show ?case by simp
next
  case (Suc n)
  show ?case
  proof (cases "ix ! n \<noteq> n + 7 - 5")
    case True
    with Suc.prems have eq: "ix' = resetTail n (ix[n := ix ! n + 1])" by simp
    have "ix' ! n = ix ! n + 1" using Suc.prems(2) by (simp add: eq nth_resetTail)
    moreover have "\<forall>j<n. ix' ! j = ix ! j" by (simp add: eq nth_resetTail)
    ultimately show ?thesis using eq by auto
  next
    case False
    with Suc.prems have "nextFrom n ix = Some ix'" by simp
    with Suc.IH Suc.prems(2) show ?thesis by (auto intro: less_SucI)
  qed
qed

lemma nextFrom_length: "nextFrom n ix = Some ix' \<Longrightarrow> length ix' = length ix"
  by (induction n) (auto split: if_splits)

definition remainingIdx :: "nat \<Rightarrow> nat list \<Rightarrow> nat \<times> nat \<times> nat \<times> nat \<times> nat" where
  "remainingIdx L ix = (L - ix ! 0, L - ix ! 1, L - ix ! 2, L - ix ! 3, L - ix ! 4)"

lemma remainingIdx_decreases:
  assumes "i < 5" "ix' ! i = ix ! i + 1" "\<forall>j<i. ix' ! j = ix ! j" "ix' ! i < L"
  shows "(remainingIdx L ix', remainingIdx L ix)
           \<in> less_than <*lex*> less_than <*lex*> less_than <*lex*> less_than <*lex*> less_than"
proof -
  from assms(1) consider "i = 0" | "i = 1" | "i = 2" | "i = 3" | "i = 4" by linarith
  then show ?thesis
    using assms(2-4) by cases (auto simp: remainingIdx_def)
qed

lemma evalCombo_Inr_bounds:
  "evalCombo cards ix = Inr hv \<Longrightarrow> 5 \<le> length ix \<and> (\<forall>i<5. ix ! i < length cards)"
proof (intro conjI allI impI)
  assume ev: "evalCombo cards ix = Inr hv"
  show len: "5 \<le> length ix"
    using ev by (simp add: evalCombo_def split: if_splits)
  fix i :: nat
  assume "i < 5"
  with len have "ix ! i \<in> set (take 5 ix)"
    by (metis length_take min.absorb2 nth_mem nth_take)
  moreover have "\<not> list_ex (\<lambda>i. length cards \<le> i) (take 5 ix)"
    using ev by (simp add: evalCombo_def split: if_splits)
  ultimately show "ix ! i < length cards"
    by (auto simp: list_ex_iff)
qed

text \<open>The loop of \<^verbatim>\<open>EvaluateBestHand\<close> after the first combination.\<close>

function bestLoop :: "Card list \<Rightarrow> nat list \<Rightarrow> HandValue \<Rightarrow> panic + HandValue" where
  "bestLoop cards indexes best =
     (case nextIndexes indexes of
        None \<Rightarrow> Inr best
      | Some indexes' \<Rightarrow>
          (case evalCombo cards indexes' of
             Inl e \<Rightarrow> Inl e
           | Inr hv \<Rightarrow> bestLoop cards indexes' (if CompareHandValues hv best > 0 then hv else best)))"
  by pat_completeness auto
termination
proof (relation "inv_image
    (less_than <*lex*> less_than <*lex*> less_than <*lex*> less_than <*lex*> less_than)
    (\<lambda>(cards, indexes, best). remainingIdx (length cards) indexes)")
  show "wf (inv_image
    (less_than <*lex*> less_than <*lex*> less_than <*lex*> less_than <*lex*> less_than)
    (\<lambda>(cards, indexes, best). remainingIdx (length cards) indexes))"
    by (intro wf_inv_image wf_lex_prod wf_less_than)
next
  fix cards :: "Card list" and indexes indexes' :: "nat list" and best hv :: HandValue
  assume nx: "nextIndexes indexes = Some indexes'" and ev: "evalCombo cards indexes' = Inr hv"
  from evalCombo_Inr_bounds [OF ev] have len: "5 \<le> length indexes'"
    and bnd: "\<forall>i<5. indexes' ! i < length cards" by auto
  show "((cards, indexes', if 0 < CompareHandValues hv best then hv else best), cards, indexes, best)
        \<in> inv_image
    (less_than <*lex*> less_than <*lex*> less_than <*lex*> less_than <*lex*> less_than)
    (\<lambda>(cards, indexes, best). remainingIdx (length cards) indexes)"
  proof -
    have step: "length indexes' = length indexes \<and>
        (\<exists>i<5. indexes' ! i = indexes ! i + 1 \<and> (\<forall>j<i. indexes' ! j = indexes ! j))"
    proof -
      have "length indexes' = length indexes"
        using nx by (simp add: nextIndexes_def nextFrom_length)
      with len have "5 \<le> length indexes" by simp
      then show ?thesis using nextFrom_step [of 5 indexes indexes'] nx by (simp add: nextIndexes_def)
    qed
    then obtain i where "i < 5" "indexes' ! i = indexes ! i + 1" "\<forall>j<i. indexes' ! j = indexes ! j"
      by blast
    with bnd have "(remainingIdx (length cards) indexes', remainingIdx (length cards) indexes)
           \<in> less_than <*lex*> less_than <*lex*> less_than <*lex*> less_than <*lex*> less_than"
      by (intro remainingIdx_decreases [of i]) auto
    then show ?thesis by simp
  qed
qed

definition EvaluateBestHand :: "Card list \<Rightarrow> panic + HandValue" where
  "EvaluateBestHand cards =
     (if length cards \<noteq> 7 then Inl RequiresSevenCards
      else case evalCombo cards [0, 1, 2, 3, 4] of
             Inl e \<Rightarrow> Inl e
           | Inr best \<Rightarrow> bestLoop cards [0, 1, 2, 3, 4] best)"

section \<open>The equity simulator (montecarlo source appended to backend/cmd/server/main.go)\<close>

record SimulationResult =
  HeroWins :: int
  VillainWins :: int
  Ties :: int
  TrialsRun :: int

text \<open>
  \<^verbatim>\<open>rng.Shuffle\<close> belongs to the Go library, so the arrangement it leaves in \<open>tmp\<close> is a
  parameter \<open>shuffle\<close> of the trial. The board loop appends \<open>tmp[drawIdx]\<close> and panics
  when \<open>drawIdx\<close> is out of range.
\<close>

fun drawBoard :: "nat \<Rightarrow> Card list \<Rightarrow> nat \<Rightarrow> Card list \<Rightarrow> panic + (Card list \<times> nat)" where
  "drawBoard 0 tmp drawIdx simCommunity = Inr (simCommunity, drawIdx)"
| "drawBoard (Suc k) tmp drawIdx simCommunity =
     (if drawIdx < length tmp then drawBoard k tmp (drawIdx + 1) (simCommunity @ [tmp ! drawIdx])
      else Inl IndexOutOfRange)"

text \<open>
  The opponents loop; the first argument counts the iterations left. It returns
  \<open>(villainBetter, equalCount)\<close>. The guard \<open>drawIdx + 2 > len(tmp)\<close> is the \<^verbatim>\<open>break\<close>.
\<close>

fun oppLoop :: "nat \<Rightarrow> Card list \<Rightarrow> Card list \<Rightarrow> HandValue \<Rightarrow> nat \<Rightarrow> bool \<Rightarrow> int
    \<Rightarrow> panic + (bool \<times> int)" where
  "oppLoop 0 tmp simCommunity heroBest drawIdx villainBetter equalCount =
     Inr (villainBetter, equalCount)"
| "oppLoop (Suc k) tmp simCommunity heroBest drawIdx villainBetter equalCount =
     (if drawIdx + 2 > length tmp then Inr (villainBetter, equalCount)
      else case EvaluateBestHand ([tmp ! drawIdx, tmp ! (drawIdx + 1)] @ simCommunity) of
             Inl e \<Rightarrow> Inl e
           | Inr oppBest \<Rightarrow>
               (let cmp = CompareHandValues oppBest heroBest
                in if cmp > 0 then
                     oppLoop k tmp simCommunity heroBest (drawIdx + 2) True equalCount
                   else if cmp = 0 then
                     oppLoop k tmp simCommunity heroBest (drawIdx + 2) villainBetter (equalCount + 1)
                   else oppLoop k tmp simCommunity heroBest (drawIdx + 2) villainBetter equalCount))"

text \<open>The result is the triple \<open>(heroWin, villainWin, tie)\<close>.\<close>

definition simulateOnce :: "(Card list \<Rightarrow> Card list) \<Rightarrow> Card list \<Rightarrow> Card list \<Rightarrow> Card list \<Rightarrow> int
    \<Rightarrow> panic + (bool \<times> bool \<times> bool)" where
  "simulateOnce shuffle heroHole community deck numOpponents =
     (let tmp = shuffle deck;
          toDraw = 5 - int (length community)
      in case drawBoard (nat toDraw) tmp 0 community of
           Inl e \<Rightarrow> Inl e
         | Inr (simCommunity, drawIdx) \<Rightarrow>
             (case EvaluateBestHand (heroHole @ simCommunity) of
                Inl e \<Rightarrow> Inl e
              | Inr heroBest \<Rightarrow>
                  (case oppLoop (nat numOpponents) tmp simCommunity heroBest drawIdx False 0 of
                     Inl e \<Rightarrow> Inl e
                   | Inr (villainBetter, equalCount) \<Rightarrow>
                       if villainBetter then Inr (False, True, False)
                       else if equalCount > 0 then Inr (False, False, True)
                       else Inr (True, False, False))))"

text \<open>
  One worker goroutine: \<open>rngw i\<close> is the arrangement its random source gives in trial
  \<open>i\<close>. A panic in a goroutine ends the program, so it ends the simulation here.
\<close>

fun workerLoop :: "(nat \<Rightarrow> Card list \<Rightarrow> Card list) \<Rightarrow> Card list \<Rightarrow> Card list \<Rightarrow> Card list \<Rightarrow> int
    \<Rightarrow> nat list \<Rightarrow> SimulationResult \<Rightarrow> panic + SimulationResult" where
  "workerLoop rngw heroHole community filtered numOpponents [] local = Inr local"
| "workerLoop rngw heroHole community filtered numOpponents (i # rest) local =
     (case simulateOnce (rngw i) heroHole community filtered numOpponents of
        Inl e \<Rightarrow> Inl e
      | Inr (heroWin, villainWin, tie) \<Rightarrow>
          (let counted =
                 (if heroWin then local\<lparr>HeroWins := HeroWins local + 1\<rparr>
                  else if villainWin then local\<lparr>VillainWins := VillainWins local + 1\<rparr>
                  else if tie then local\<lparr>Ties := Ties local + 1\<rparr>
                  else local)
           in workerLoop rngw heroHole community filtered numOpponents rest
                (counted\<lparr>TrialsRun := TrialsRun counted + 1\<rparr>)))"

definition emptyResult :: SimulationResult where
  "emptyResult = \<lparr>HeroWins = 0, VillainWins = 0, Ties = 0, TrialsRun = 0\<rparr>"

definition worker :: "(nat \<Rightarrow> Card list \<Rightarrow> Card list) \<Rightarrow> Card list \<Rightarrow> Card list \<Rightarrow> Card list \<Rightarrow> int
    \<Rightarrow> int \<Rightarrow> panic + SimulationResult" where
  "worker rngw heroHole community filtered numOpponents trialsForWorker =
     workerLoop rngw heroHole community filtered numOpponents [0..<nat trialsForWorker] emptyResult"

text \<open>
  The orchestrator's receive loop. Addition is commutative, so the order in which the
  channel delivers the partial results does not show in the sum.
\<close>

fun sumPartials :: "(panic + SimulationResult) list \<Rightarrow> SimulationResult \<Rightarrow> panic + SimulationResult" where
  "sumPartials [] final = Inr final"
| "sumPartials (Inl e # rs) final = Inl e"
| "sumPartials (Inr r # rs) final =
     sumPartials rs \<lparr>HeroWins = HeroWins final + HeroWins r,
                     VillainWins = VillainWins final + VillainWins r,
                     Ties = Ties final + Ties r,
                     TrialsRun = TrialsRun final + TrialsRun r\<rparr>"

definition filterDeck :: "Card list \<Rightarrow> Card list \<Rightarrow> Card list" where
  "filterDeck heroHole community =
     (let used = map Str heroHole @ map Str community
      in filter (\<lambda>c. Str c \<notin> set used) FullDeck)"

text \<open>\<open>rng w\<close> is the random source of worker \<open>w\<close>.\<close>

definition SimulateEquity :: "(nat \<Rightarrow> nat \<Rightarrow> Card list \<Rightarrow> Card list) \<Rightarrow> Card list \<Rightarrow> Card list \<Rightarrow> int \<Rightarrow> int
    \<Rightarrow> panic + SimulationResult" where
  "SimulateEquity rng heroHole community numOpponents trials =
     (if length heroHole \<noteq> 2 then Inl HeroHoleLength
      else if length community \<noteq> 0 \<and> length community \<noteq> 3 \<and> length community \<noteq> 4
              \<and> length community \<noteq> 5 then Inl CommunityLength
      else if numOpponents < 1 then Inl NumOpponentsTooSmall
      else if trials \<le> 0 then Inr emptyResult
      else
        (let filtered = filterDeck heroHole community;
             workers = (if trials < 4 then trials else 4);
             trialsPerWorker = trials div workers;
             remaining = trials mod workers
         in sumPartials
              (map (\<lambda>w. worker (rng w) heroHole community filtered numOpponents
                           (if w = 0 then trialsPerWorker + remaining else trialsPerWorker))
                   [0..<nat workers])
              emptyResult))"

section \<open>The evaluator over an explicit store\<close>

text \<open>
  \<^verbatim>\<open>sort.Slice\<close> in \<open>evaluate5\<close> reorders the backing array of the slice it is given. To
  state what a call leaves of its argument, the same code is modelled once more with
  the arrays in a store: an address is a position in the list of backing arrays, a slice
  is the address of its array, and allocation appends. Go cannot hold a slice of an
  array that does not exist; the model reports such an address as \<open>InvalidAddress\<close>.
\<close>

type_synonym store = "Card list list"

definition evaluate5_st :: "nat \<Rightarrow> store \<Rightarrow> (panic + HandValue) \<times> store" where
  "evaluate5_st cardsAt st =
     (if length st \<le> cardsAt then (Inl InvalidAddress, st)
      else let sorted = sortSlice rankDesc (st ! cardsAt);
               st' = st[cardsAt := sorted]
           in (classifySorted (st' ! cardsAt), st'))"

definition evalCombo_st :: "nat \<Rightarrow> nat list \<Rightarrow> store \<Rightarrow> (panic + HandValue) \<times> store" where
  "evalCombo_st cardsAt indexes st =
     (if length st \<le> cardsAt then (Inl InvalidAddress, st)
      else let cards = st ! cardsAt
           in if length indexes < 5 then (Inl IndexOutOfRange, st)
              else if list_ex (\<lambda>i. length cards \<le> i) (take 5 indexes) then (Inl IndexOutOfRange, st)
              else let hand = length st;
                       st' = st @ [[cards ! (indexes ! 0), cards ! (indexes ! 1),
                                    cards ! (indexes ! 2), cards ! (indexes ! 3),
                                    cards ! (indexes ! 4)]]
                   in evaluate5_st hand st')"

lemma evaluate5_st_frame:
  "evaluate5_st a st = (r, st') \<Longrightarrow>
     length st' = length st \<and> (\<forall>b<length st. b \<noteq> a \<longrightarrow> st' ! b = st ! b)"
  by (auto simp: evaluate5_st_def Let_def split: if_splits)

lemma evalCombo_st_frame:
  assumes "evalCombo_st cardsAt indexes st = (r, st')"
  shows "length st \<le> length st' \<and> take (length st) st' = st"
proof (cases "evalCombo_st cardsAt indexes st = evaluate5_st (length st)
    (st @ [[st ! cardsAt ! (indexes ! 0), st ! cardsAt ! (indexes ! 1),
            st ! cardsAt ! (indexes ! 2), st ! cardsAt ! (indexes ! 3),
            st ! cardsAt ! (indexes ! 4)]])")
  case True
  let ?st1 = "st @ [[st ! cardsAt ! (indexes ! 0), st ! cardsAt ! (indexes ! 1),
            st ! cardsAt ! (indexes ! 2), st ! cardsAt ! (indexes ! 3),
            st ! cardsAt ! (indexes ! 4)]]"
  from True assms have "evaluate5_st (length st) ?st1 = (r, st')" by simp
  from evaluate5_st_frame [OF this]
  have len: "length st' = Suc (length st)"
    and same: "\<forall>b<Suc (length st). b \<noteq> length st \<longrightarrow> st' ! b = ?st1 ! b"
    by simp_all
  have "take (length st) st' = st"
  proof (rule nth_equalityI)
    show "length (take (length st) st') = length st" using len by simp
  next
    fix i
    assume "i < length (take (length st) st')"
    then have i: "i < length st" by simp
    with same have "st' ! i = ?st1 ! i" by simp
    with i show "take (length st) st' ! i = st ! i" by (simp add: nth_append)
  qed
  with len show ?thesis by simp
next
  case False
  then have "evalCombo_st cardsAt indexes st = (Inl InvalidAddress, st)
      \<or> evalCombo_st cardsAt indexes st = (Inl IndexOutOfRange, st)"
    by (auto simp: evalCombo_st_def Let_def split: if_splits)
  with assms show ?thesis by auto
qed

lemma evalCombo_st_Inr_bounds:
  assumes ev: "evalCombo_st cardsAt ix st = (Inr hv, st')"
  shows "cardsAt < length st \<and> st' ! cardsAt = st ! cardsAt
         \<and> 5 \<le> length ix \<and> (\<forall>i<5. ix ! i < length (st ! cardsAt))"
proof -
  have at: "cardsAt < length st"
    using ev by (auto simp: evalCombo_st_def split: if_splits)
  have len: "5 \<le> length ix"
    using ev at by (auto simp: evalCombo_st_def Let_def split: if_splits)
  have nex: "\<not> list_ex (\<lambda>i. length (st ! cardsAt) \<le> i) (take 5 ix)"
    using ev at by (auto simp: evalCombo_st_def Let_def split: if_splits)
  have bnd: "\<forall>i<5. ix ! i < length (st ! cardsAt)"
  proof (intro allI impI)
    fix i :: nat
    assume "i < 5"
    with len have "ix ! i \<in> set (take 5 ix)"
      by (metis length_take min.absorb2 nth_mem nth_take)
    with nex show "ix ! i < length (st ! cardsAt)"
      by (auto simp: list_ex_iff)
  qed
  from evalCombo_st_frame [OF ev] have "take (length st) st' = st" by simp
  then have "st' ! cardsAt = st ! cardsAt"
    using at by (metis nth_take)
  with at len bnd show ?thesis by simp
qed

function bestLoop_st :: "nat \<Rightarrow> nat list \<Rightarrow> HandValue \<Rightarrow> store \<Rightarrow> (panic + HandValue) \<times> store" where
  "bestLoop_st cardsAt indexes best st =
     (case nextIndexes indexes of
        None \<Rightarrow> (Inr best, st)
      | Some indexes' \<Rightarrow>
          (case evalCombo_st cardsAt indexes' st of
             (Inl e, st') \<Rightarrow> (Inl e, st')
           | (Inr hv, st') \<Rightarrow>
               bestLoop_st cardsAt indexes' (if CompareHandValues hv best > 0 then hv else best) st'))"
  by pat_completeness auto
termination
proof (relation "inv_image
    (less_than <*lex*> less_than <*lex*> less_than <*lex*> less_than <*lex*> less_than)
    (\<lambda>(cardsAt, indexes, best, st). remainingIdx (length (st ! cardsAt)) indexes)")
  show "wf (inv_image
    (less_than <*lex*> less_than <*lex*> less_than <*lex*> less_than <*lex*> less_than)
    (\<lambda>(cardsAt, indexes, best, st). remainingIdx (length (st ! cardsAt)) indexes))"
    by (intro wf_inv_image wf_lex_prod wf_less_than)
next
  fix cardsAt :: nat and indexes indexes' :: "nat list" and best hv :: HandValue
    and st st' :: store and r :: "panic + HandValue"
  assume nx: "nextIndexes indexes = Some indexes'"
    and pr: "(r, st') = evalCombo_st cardsAt indexes' st" and r: "r = Inr hv"
  from pr r have ev: "evalCombo_st cardsAt indexes' st = (Inr hv, st')" by simp
  from evalCombo_st_Inr_bounds [OF ev] have len: "5 \<le> length indexes'"
    and bnd: "\<forall>i<5. indexes' ! i < length (st ! cardsAt)"
    and same: "st' ! cardsAt = st ! cardsAt" by auto
  have "length indexes' = length indexes"
    using nx by (simp add: nextIndexes_def nextFrom_length)
  with len have "5 \<le> length indexes" by simp
  then have "\<exists>i<5. indexes' ! i = indexes ! i + 1 \<and> (\<forall>j<i. indexes' ! j = indexes ! j)"
    using nextFrom_step [of 5 indexes indexes'] nx by (simp add: nextIndexes_def)
  then obtain i where "i < 5" "indexes' ! i = indexes ! i + 1" "\<forall>j<i. indexes' ! j = indexes ! j"
    by blast
  with bnd have "(remainingIdx (length (st ! cardsAt)) indexes',
                  remainingIdx (length (st ! cardsAt)) indexes)
           \<in> less_than <*lex*> less_than <*lex*> less_than <*lex*> less_than <*lex*> less_than"
    by (intro remainingIdx_decreases [of i]) auto
  with same show "((cardsAt, indexes', if 0 < CompareHandValues hv best then hv else best, st'),
         cardsAt, indexes, best, st)
        \<in> inv_image
    (less_than <*lex*> less_than <*lex*> less_than <*lex*> less_than <*lex*> less_than)
    (\<lambda>(cardsAt, indexes, best, st). remainingIdx (length (st ! cardsAt)) indexes)"
    by simp
qed

definition EvaluateBestHand_st :: "nat \<Rightarrow> store \<Rightarrow> (panic + HandValue) \<times> store" where
  "EvaluateBestHand_st cardsAt st =
     (if length st \<le> cardsAt then (Inl InvalidAddress, st)
      else if length (st ! cardsAt) \<noteq> 7 then (Inl RequiresSevenCards, st)
      else case evalCombo_st cardsAt [0, 1, 2, 3, 4] st of
             (Inl e, st') \<Rightarrow> (Inl e, st')
           | (Inr best, st') \<Rightarrow> bestLoop_st cardsAt [0, 1, 2, 3, 4] best st')"

section \<open>Properties\<close>

lemmas suit_defs = Hearts_def Diamonds_def Clubs_def Spades_def
lemmas rank_defs = Two_def Three_def Four_def Five_def Six_def Seven_def Eight_def
  Nine_def Ten_def Jack_def Queen_def King_def Ace_def
lemmas category_defs = HighCard_def OnePair_def TwoPair_def ThreeOfAKind_def Straight_def
  Flush_def FullHouse_def FourOfAKind_def StraightFlush_def

subsection \<open>The comparator is a total order\<close>

lemma compareKickers_range: "compareKickers xs ys \<in> {- 1, 0, 1}"
  by (induction xs ys rule: compareKickers.induct) auto

lemma compareKickers_refl: "compareKickers xs xs = 0"
  by (induction xs) auto

lemma compareKickers_antisym: "compareKickers xs ys = - compareKickers ys xs"
  by (induction xs ys rule: compareKickers.induct) auto

lemma compareKickers_eq_0: "compareKickers xs ys = 0 \<longleftrightarrow> xs = ys"
  by (induction xs ys rule: compareKickers.induct) auto

lemma compareKickers_trans:
  "0 \<le> compareKickers xs ys \<Longrightarrow> 0 \<le> compareKickers ys zs \<Longrightarrow> 0 \<le> compareKickers xs zs"
proof (induction xs arbitrary: ys zs)
  case Nil
  then have "ys = []" by (cases ys) simp_all
  with Nil have "zs = []" by (cases zs) simp_all
  then show ?case by simp
next
  case (Cons x xs)
  show ?case
  proof (cases zs)
    case Nil
    then show ?thesis by simp
  next
    case zs: (Cons z zs')
    from Cons.prems(2) zs obtain y ys' where ys: "ys = y # ys'"
      by (cases ys) simp_all
    from Cons.prems(1) ys have xy: "y \<le> x" by (simp split: if_splits)
    from Cons.prems(2) ys zs have yz: "z \<le> y" by (simp split: if_splits)
    show ?thesis
    proof (cases "x = z")
      case True
      with xy yz have "x = y" "y = z" by simp_all
      with Cons.prems ys zs have "0 \<le> compareKickers xs ys'" "0 \<le> compareKickers ys' zs'"
        by simp_all
      then have "0 \<le> compareKickers xs zs'" by (rule Cons.IH)
      with True zs show ?thesis by simp
    next
      case False
      with xy yz have "z < x" by simp
      with zs show ?thesis by simp
    qed
  qed
qed

lemma CompareHandValues_range: "CompareHandValues a b \<in> {- 1, 0, 1}"
  using compareKickers_range [of "Kickers a" "Kickers b"] by (auto simp: CompareHandValues_def)

lemma CompareHandValues_refl: "CompareHandValues a a = 0"
  by (simp add: CompareHandValues_def compareKickers_refl)

lemma CompareHandValues_antisym: "CompareHandValues a b = - CompareHandValues b a"
  using compareKickers_antisym [of "Kickers a" "Kickers b"] by (auto simp: CompareHandValues_def)

lemma CompareHandValues_eq_0: "CompareHandValues a b = 0 \<longleftrightarrow> a = (b :: HandValue)"
proof -
  have "a = b \<longleftrightarrow> Category a = Category b \<and> Kickers a = Kickers b"
    by (cases a, cases b) simp
  then show ?thesis
    by (simp add: CompareHandValues_def compareKickers_eq_0)
qed

lemma CompareHandValues_trans:
  assumes "0 \<le> CompareHandValues a b" "0 \<le> CompareHandValues b c"
  shows "0 \<le> CompareHandValues a c"
proof (cases "Category a = Category b \<and> Category b = Category c")
  case True
  with assms show ?thesis
    using compareKickers_trans [of "Kickers a" "Kickers b" "Kickers c"]
    by (simp add: CompareHandValues_def)
next
  case False
  with assms show ?thesis
    by (auto simp: CompareHandValues_def split: if_splits)
qed

text \<open>
  C4. \<open>CompareHandValues\<close> is a total order on hand values: a value compares equal to
  itself, swapping the arguments negates the result, and "not less" is transitive.
  It holds for every pair of hand values, so in particular for those the 5-card
  classifier produces; and only equal values compare equal.
\<close>

theorem CompareHandValues_total_order:
  "CompareHandValues a a = 0
   \<and> CompareHandValues a b = - CompareHandValues b a
   \<and> (CompareHandValues a b \<ge> 0 \<longrightarrow> CompareHandValues b c \<ge> 0 \<longrightarrow> CompareHandValues a c \<ge> 0)
   \<and> (CompareHandValues a b = 0 \<longleftrightarrow> a = (b :: HandValue))
   \<and> CompareHandValues a b \<in> {- 1, 0, 1}"
proof (intro conjI impI)
  show "CompareHandValues a a = 0" by (rule CompareHandValues_refl)
  show "CompareHandValues a b = - CompareHandValues b a" by (rule CompareHandValues_antisym)
  show "CompareHandValues a b = 0 \<longleftrightarrow> a = b" by (rule CompareHandValues_eq_0)
  show "CompareHandValues a b \<in> {- 1, 0, 1}" by (rule CompareHandValues_range)
next
  assume "0 \<le> CompareHandValues a b" "0 \<le> CompareHandValues b c"
  then show "0 \<le> CompareHandValues a c" by (rule CompareHandValues_trans)
qed

lemma classifier_values:
  "evaluate5 [mkCard Hearts Ace, mkCard Hearts King, mkCard Hearts Queen, mkCard Hearts Jack,
              mkCard Hearts Ten] = Inr \<lparr>Category = StraightFlush, Kickers = [Ace]\<rparr>"
  "evaluate5 [mkCard Hearts Ace, mkCard Diamonds Two, mkCard Clubs Three, mkCard Spades Four,
              mkCard Hearts Five] = Inr \<lparr>Category = Straight, Kickers = [Five]\<rparr>"
  "evaluate5 [mkCard Hearts Two, mkCard Diamonds Two, mkCard Clubs Three, mkCard Spades Three,
              mkCard Clubs Seven] = Inr \<lparr>Category = TwoPair, Kickers = [Three, Two, Seven]\<rparr>"
  by code_simp+

theorem CompareHandValues_total_order_witness:
  "evaluate5 [mkCard Hearts Ace, mkCard Hearts King, mkCard Hearts Queen, mkCard Hearts Jack,
              mkCard Hearts Ten] = Inr \<lparr>Category = StraightFlush, Kickers = [Ace]\<rparr>
   \<and> evaluate5 [mkCard Hearts Ace, mkCard Diamonds Two, mkCard Clubs Three, mkCard Spades Four,
              mkCard Hearts Five] = Inr \<lparr>Category = Straight, Kickers = [Five]\<rparr>
   \<and> evaluate5 [mkCard Hearts Two, mkCard Diamonds Two, mkCard Clubs Three, mkCard Spades Three,
              mkCard Clubs Seven] = Inr \<lparr>Category = TwoPair, Kickers = [Three, Two, Seven]\<rparr>
   \<and> CompareHandValues \<lparr>Category = StraightFlush, Kickers = [Ace]\<rparr>
        \<lparr>Category = Straight, Kickers = [Five]\<rparr> \<ge> 0
   \<and> CompareHandValues \<lparr>Category = Straight, Kickers = [Five]\<rparr>
        \<lparr>Category = TwoPair, Kickers = [Three, Two, Seven]\<rparr> \<ge> 0
   \<and> CompareHandValues \<lparr>Category = StraightFlush, Kickers = [Ace]\<rparr>
        \<lparr>Category = TwoPair, Kickers = [Three, Two, Seven]\<rparr> \<ge> 0"
proof -
  have ab: "CompareHandValues \<lparr>Category = StraightFlush, Kickers = [Ace]\<rparr>
        \<lparr>Category = Straight, Kickers = [Five]\<rparr> \<ge> 0"
    by (simp add: CompareHandValues_def category_defs)
  have bc: "CompareHandValues \<lparr>Category = Straight, Kickers = [Five]\<rparr>
        \<lparr>Category = TwoPair, Kickers = [Three, Two, Seven]\<rparr> \<ge> 0"
    by (simp add: CompareHandValues_def category_defs)
  have t: "CompareHandValues \<lparr>Category = StraightFlush, Kickers = [Ace]\<rparr>
        \<lparr>Category = Straight, Kickers = [Five]\<rparr> \<ge> 0
      \<longrightarrow> CompareHandValues \<lparr>Category = Straight, Kickers = [Five]\<rparr>
        \<lparr>Category = TwoPair, Kickers = [Three, Two, Seven]\<rparr> \<ge> 0
      \<longrightarrow> CompareHandValues \<lparr>Category = StraightFlush, Kickers = [Ace]\<rparr>
        \<lparr>Category = TwoPair, Kickers = [Three, Two, Seven]\<rparr> \<ge> 0"
    using CompareHandValues_total_order
      [of "\<lparr>Category = StraightFlush, Kickers = [Ace]\<rparr>"
          "\<lparr>Category = Straight, Kickers = [Five]\<rparr>"
          "\<lparr>Category = TwoPair, Kickers = [Three, Two, Seven]\<rparr>"]
    by (elim conjE)
  from t ab bc have ac: "CompareHandValues \<lparr>Category = StraightFlush, Kickers = [Ace]\<rparr>
        \<lparr>Category = TwoPair, Kickers = [Three, Two, Seven]\<rparr> \<ge> 0"
    by (elim impE)
  show ?thesis
    by (intro conjI classifier_values ab bc ac)
qed


lemma fixture1:
  "EvaluateBestHand [mkCard Hearts Ace, mkCard Hearts King, mkCard Hearts Queen, mkCard Hearts Jack,
     mkCard Hearts Ten, mkCard Spades Two, mkCard Spades Three]
   = Inr \<lparr>Category = StraightFlush, Kickers = [Ace]\<rparr>"
  by code_simp

lemma fixture2:
  "EvaluateBestHand [mkCard Hearts Two, mkCard Diamonds Two, mkCard Clubs Two, mkCard Spades Two,
     mkCard Hearts Five, mkCard Hearts Six, mkCard Hearts Seven]
   = Inr \<lparr>Category = FourOfAKind, Kickers = [Two, Seven]\<rparr>"
  by code_simp

lemma fixture3:
  "EvaluateBestHand [mkCard Hearts Two, mkCard Diamonds Two, mkCard Clubs Three, mkCard Spades Three,
     mkCard Hearts Five, mkCard Diamonds Six, mkCard Clubs Seven]
   = Inr \<lparr>Category = TwoPair, Kickers = [Three, Two, Seven]\<rparr>"
  by code_simp

lemma fixture4:
  "EvaluateBestHand [mkCard Hearts Ace, mkCard Diamonds Two, mkCard Clubs Three, mkCard Spades Four,
     mkCard Hearts Five, mkCard Diamonds Nine, mkCard Clubs King]
   = Inr \<lparr>Category = Straight, Kickers = [Five]\<rparr>"
  by code_simp

text \<open>
  C1. The four fixtures of the specification: the royal flush in hearts, the four twos
  with a seven, twos and threes with a seven, and the wheel with a nine and a king.
\<close>

theorem EvaluateBestHand_fixtures:
  "EvaluateBestHand [mkCard Hearts Ace, mkCard Hearts King, mkCard Hearts Queen, mkCard Hearts Jack,
     mkCard Hearts Ten, mkCard Spades Two, mkCard Spades Three]
   = Inr \<lparr>Category = StraightFlush, Kickers = [Ace]\<rparr>
   \<and> EvaluateBestHand [mkCard Hearts Two, mkCard Diamonds Two, mkCard Clubs Two, mkCard Spades Two,
     mkCard Hearts Five, mkCard Hearts Six, mkCard Hearts Seven]
   = Inr \<lparr>Category = FourOfAKind, Kickers = [Two, Seven]\<rparr>
   \<and> EvaluateBestHand [mkCard Hearts Two, mkCard Diamonds Two, mkCard Clubs Three, mkCard Spades Three,
     mkCard Hearts Five, mkCard Diamonds Six, mkCard Clubs Seven]
   = Inr \<lparr>Category = TwoPair, Kickers = [Three, Two, Seven]\<rparr>
   \<and> EvaluateBestHand [mkCard Hearts Ace, mkCard Diamonds Two, mkCard Clubs Three, mkCard Spades Four,
     mkCard Hearts Five, mkCard Diamonds Nine, mkCard Clubs King]
   = Inr \<lparr>Category = Straight, Kickers = [Five]\<rparr>"
  by (intro conjI fixture1 fixture2 fixture3 fixture4)

subsection \<open>Sorting, counting and marking\<close>

lemma mset_insertBy: "mset (insertBy lt x xs) = add_mset x (mset xs)"
  by (induction xs) simp_all

lemma mset_sortSlice: "mset (sortSlice lt xs) = mset xs"
  unfolding sortSlice_def by (induction xs) (simp_all add: mset_insertBy)

lemma set_sortSlice: "set (sortSlice lt xs) = set xs"
  using mset_sortSlice [of lt xs] by (metis set_mset_mset)

lemma length_sortSlice: "length (sortSlice lt xs) = length xs"
  using mset_sortSlice [of lt xs] by (metis size_mset)

lemma markAll_aux: "foldl (\<lambda>m r. m(r := True)) m0 rs r = (m0 r \<or> r \<in> set rs)"
  by (induction rs arbitrary: m0) auto

lemma markAll_iff: "markAll rs r \<longleftrightarrow> r \<in> set rs"
  by (simp add: markAll_def markAll_aux)

lemma map_of_incr:
  "map_of (incr k m) = (map_of m)(k \<mapsto> (case map_of m k of None \<Rightarrow> 1 | Some n \<Rightarrow> n + 1))"
  by (induction m) (auto simp: fun_eq_iff)

lemma keys_incr:
  "map fst (incr k m) = (if k \<in> set (map fst m) then map fst m else map fst m @ [k])"
  by (induction m) (force split: if_splits)+

lemma distinct_incr: "distinct (map fst m) \<Longrightarrow> distinct (map fst (incr k m))"
  by (simp add: keys_incr)

lemma find_SomeD: "find P xs = Some x \<Longrightarrow> x \<in> set xs \<and> P x"
  by (induction xs) (auto split: if_splits)

lemma distinct_countBy_aux:
  "distinct (map fst m) \<Longrightarrow> distinct (map fst (foldl (\<lambda>m x. incr (f x) m) m xs))"
  by (induction xs arbitrary: m) (simp_all add: distinct_incr)

lemma distinct_countBy: "distinct (map fst (countBy f xs))"
  by (simp add: countBy_def distinct_countBy_aux)

lemma map_of_countBy_aux:
  "map_of (foldl (\<lambda>m x. incr (f x) m) m xs) k =
     (if k \<in> f ` set xs
      then Some ((case map_of m k of None \<Rightarrow> 0 | Some n \<Rightarrow> n) + int (count_list (map f xs) k))
      else map_of m k)"
proof (induction xs arbitrary: m)
  case Nil
  show ?case by simp
next
  case (Cons x xs)
  show ?case
    by (simp add: Cons.IH map_of_incr split: option.split)
qed

lemma map_of_countBy:
  "map_of (countBy f xs) k =
     (if k \<in> f ` set xs then Some (int (count_list (map f xs) k)) else None)"
  by (simp add: countBy_def map_of_countBy_aux)

lemma in_countBy_iff:
  "(k, n) \<in> set (countBy f xs) \<longleftrightarrow> k \<in> f ` set xs \<and> n = int (count_list (map f xs) k)"
proof -
  have "(k, n) \<in> set (countBy f xs) \<longleftrightarrow> map_of (countBy f xs) k = Some n"
    using distinct_countBy [of f xs] by simp
  then show ?thesis
    by (auto simp: map_of_countBy)
qed

lemma count_list_full: "count_list xs x = length xs \<longleftrightarrow> (\<forall>y\<in>set xs. y = x)"
proof (induction xs)
  case Nil
  show ?case by simp
next
  case (Cons a xs)
  have "count_list xs x \<le> length xs" by (rule count_le_length)
  with Cons show ?case by auto
qed

lemma distinct_singleton_set:
  assumes "set xs = {x}" "distinct xs"
  shows "xs = [x]"
proof (cases xs)
  case Nil
  with assms show ?thesis by simp
next
  case (Cons a ys)
  with assms have "a = x" "set ys \<subseteq> {x}" "x \<notin> set ys" by auto
  then have "ys = []" by (cases ys) auto
  with Cons \<open>a = x\<close> show ?thesis by simp
qed

subsection \<open>Flush and straight detection on five cards\<close>

lemma detectFlush_True_iff:
  assumes "length cards = 5"
  shows "detectFlush cards = (True, s) \<longleftrightarrow> (\<forall>c\<in>set cards. Suit c = s)"
proof
  assume "detectFlush cards = (True, s)"
  then obtain c where "find (\<lambda>(s, c). c \<ge> 5) (countBy Suit cards) = Some (s, c)"
    by (auto simp: detectFlush_def split: option.splits)
  then have "(s, c) \<in> set (countBy Suit cards)" "c \<ge> 5"
    by (auto dest: find_SomeD)
  then have "int (count_list (map Suit cards) s) \<ge> 5"
    by (simp add: in_countBy_iff)
  moreover have "count_list (map Suit cards) s \<le> length (map Suit cards)"
    by (rule count_le_length)
  ultimately have "count_list (map Suit cards) s = length (map Suit cards)"
    using assms by simp
  then show "\<forall>c\<in>set cards. Suit c = s"
    using count_list_full [of "map Suit cards" s] by auto
next
  assume all: "\<forall>c\<in>set cards. Suit c = s"
  then have "count_list (map Suit cards) s = length (map Suit cards)"
    using count_list_full [of "map Suit cards" s] by auto
  with assms have cnt: "int (count_list (map Suit cards) s) = 5" by simp
  from assms obtain c0 where "c0 \<in> set cards" by (cases cards) auto
  with all have img: "Suit ` set cards = {s}" by force
  then have "set (countBy Suit cards) = {(s, 5)}"
    using cnt by (auto simp: in_countBy_iff)
  moreover have "distinct (countBy Suit cards)"
    using distinct_countBy [of Suit cards] by (simp add: distinct_map)
  ultimately have "countBy Suit cards = [(s, 5)]"
    by (rule distinct_singleton_set)
  then show "detectFlush cards = (True, s)"
    by (simp add: detectFlush_def)
qed

lemma detectFlush_False:
  assumes "length cards = 5" "\<not> (\<exists>s. \<forall>c\<in>set cards. Suit c = s)"
  shows "detectFlush cards = (False, Hearts)"
proof (cases "find (\<lambda>(s, c). c \<ge> 5) (countBy Suit cards)")
  case None
  then show ?thesis by (simp add: detectFlush_def)
next
  case (Some p)
  then have "detectFlush cards = (True, fst p)"
    by (cases p) (simp add: detectFlush_def)
  with assms show ?thesis
    by (simp add: detectFlush_True_iff)
qed

lemma detectStraight_wheel:
  assumes "Rank ` set cards = {Ace, Two, Three, Four, Five}"
  shows "detectStraight cards = (True, Five)"
proof -
  have "\<And>r. markAll (map Rank cards) r \<longleftrightarrow> r \<in> {Ace, Two, Three, Four, Five}"
    using assms by (simp add: markAll_iff)
  then show ?thesis
    by (simp add: detectStraight_def)
qed

lemma filterBySuit_all: "\<forall>c\<in>set cards. Suit c = s \<Longrightarrow> filterBySuit cards s = cards"
  by (simp add: filterBySuit_def)

subsection \<open>The wheel\<close>

lemma upt_0_5: "[0..<5] = [0, 1, 2, 3, 4]"
  by code_simp

lemma scanStraight_wheel:
  assumes "\<And>r. seen r \<longleftrightarrow> r \<in> {Ace, Two, Three, Four, Five}"
  shows "scanStraight seen Ace = (False, Two)"
  by (simp add: assms scanStraight.simps rank_defs upt_0_5)

text \<open>
  C3. Five cards whose ranks are exactly Ace, Two, Three, Four, Five and that are not
  all of one suit classify as a Straight with the single kicker Five. The scan of the
  consecutive windows from Ace down to Five alone does not find this straight, so the
  explicit wheel test is what recognises it.
\<close>

theorem evaluate5_wheel_straight:
  assumes "length cards = 5"
    and "Rank ` set cards = {Ace, Two, Three, Four, Five}"
    and "\<not> (\<exists>s. \<forall>c\<in>set cards. Suit c = s)"
  shows "evaluate5 cards = Inr \<lparr>Category = Straight, Kickers = [Five]\<rparr>
         \<and> scanStraight (markAll (map Rank cards)) Ace = (False, Two)"
proof -
  let ?s = "sortSlice rankDesc cards"
  have len: "length ?s = 5" using assms(1) by (simp add: length_sortSlice)
  have set: "set ?s = set cards" by (rule set_sortSlice)
  have fl: "detectFlush ?s = (False, Hearts)"
    using len assms(3) by (intro detectFlush_False) (simp_all add: set)
  have st: "detectStraight ?s = (True, Five)"
    using assms(2) by (intro detectStraight_wheel) (simp add: set)
  have "evaluate5 cards = Inr \<lparr>Category = Straight, Kickers = [Five]\<rparr>"
    by (simp add: evaluate5_def classifySorted_def fl st)
  moreover have "scanStraight (markAll (map Rank cards)) Ace = (False, Two)"
    using assms(2) by (intro scanStraight_wheel) (simp add: markAll_iff)
  ultimately show ?thesis by simp
qed

theorem evaluate5_wheel_straight_witness:
  "length [mkCard Hearts Ace, mkCard Diamonds Two, mkCard Clubs Three, mkCard Spades Four,
           mkCard Hearts Five] = 5
   \<and> Rank ` set [mkCard Hearts Ace, mkCard Diamonds Two, mkCard Clubs Three, mkCard Spades Four,
           mkCard Hearts Five] = {Ace, Two, Three, Four, Five}
   \<and> \<not> (\<exists>s. Suit (mkCard Hearts Ace) = s \<and> Suit (mkCard Diamonds Two) = s)
   \<and> evaluate5 [mkCard Hearts Ace, mkCard Diamonds Two, mkCard Clubs Three, mkCard Spades Four,
           mkCard Hearts Five] = Inr \<lparr>Category = Straight, Kickers = [Five]\<rparr>"
proof -
  let ?h = "[mkCard Hearts Ace, mkCard Diamonds Two, mkCard Clubs Three, mkCard Spades Four,
           mkCard Hearts Five]"
  have 1: "length ?h = 5" by simp
  have 2: "Rank ` set ?h = {Ace, Two, Three, Four, Five}"
    by (simp add: mkCard_def)
  have 3: "\<not> (\<exists>s. Suit (mkCard Hearts Ace) = s \<and> Suit (mkCard Diamonds Two) = s)"
    by (simp add: mkCard_def suit_defs)
  then have 4: "\<not> (\<exists>s. \<forall>c\<in>set ?h. Suit c = s)" by simp
  from evaluate5_wheel_straight [OF 1 2 4] 1 2 3 show ?thesis by simp
qed

text \<open>
  C10. Five cards whose ranks are exactly Ace, Two, Three, Four, Five and that share
  one suit classify as a Straight Flush with the single kicker Five.
\<close>

theorem evaluate5_steel_wheel:
  assumes "length cards = 5"
    and "Rank ` set cards = {Ace, Two, Three, Four, Five}"
    and "\<forall>c\<in>set cards. Suit c = s"
  shows "evaluate5 cards = Inr \<lparr>Category = StraightFlush, Kickers = [Five]\<rparr>"
proof -
  let ?s = "sortSlice rankDesc cards"
  have len: "length ?s = 5" using assms(1) by (simp add: length_sortSlice)
  have set: "set ?s = set cards" by (rule set_sortSlice)
  have fl: "detectFlush ?s = (True, s)"
    using assms(3) by (simp add: detectFlush_True_iff [OF len] set)
  have fi: "filterBySuit ?s s = ?s"
    using assms(3) by (intro filterBySuit_all) (simp add: set)
  have st: "detectStraight ?s = (True, Five)"
    using assms(2) by (intro detectStraight_wheel) (simp add: set)
  show ?thesis
    by (simp add: evaluate5_def classifySorted_def fl fi st)
qed

theorem evaluate5_steel_wheel_witness:
  "length [mkCard Clubs Five, mkCard Clubs Ace, mkCard Clubs Three, mkCard Clubs Two,
           mkCard Clubs Four] = 5
   \<and> Rank ` set [mkCard Clubs Five, mkCard Clubs Ace, mkCard Clubs Three, mkCard Clubs Two,
           mkCard Clubs Four] = {Ace, Two, Three, Four, Five}
   \<and> Suit ` set [mkCard Clubs Five, mkCard Clubs Ace, mkCard Clubs Three, mkCard Clubs Two,
           mkCard Clubs Four] = {Clubs}
   \<and> evaluate5 [mkCard Clubs Five, mkCard Clubs Ace, mkCard Clubs Three, mkCard Clubs Two,
           mkCard Clubs Four] = Inr \<lparr>Category = StraightFlush, Kickers = [Five]\<rparr>"
proof -
  let ?h = "[mkCard Clubs Five, mkCard Clubs Ace, mkCard Clubs Three, mkCard Clubs Two,
           mkCard Clubs Four]"
  have 1: "length ?h = 5" by simp
  have 2: "Rank ` set ?h = {Ace, Two, Three, Four, Five}"
    by (auto simp: mkCard_def)
  have 3: "Suit ` set ?h = {Clubs}"
    by (simp add: mkCard_def)
  then have 4: "\<forall>c\<in>set ?h. Suit c = Clubs" by (simp add: mkCard_def)
  from evaluate5_steel_wheel [OF 1 2 4] 1 2 3 show ?thesis by simp
qed

subsection \<open>The classifier reads only the ranks in order and the suits present\<close>

lemma set_insertBy: "set (insertBy lt x xs) = insert x (set xs)"
  by (induction xs) auto

lemma sorted_insertBy_rankDesc:
  "sorted_wrt (\<ge>) (map Rank xs) \<Longrightarrow> sorted_wrt (\<ge>) (map Rank (insertBy rankDesc x xs))"
  by (induction xs) (auto simp: rankDesc_def set_insertBy)

lemma sorted_sortSlice_rankDesc: "sorted_wrt (\<ge>) (map Rank (sortSlice rankDesc xs))"
  unfolding sortSlice_def by (induction xs) (simp_all add: sorted_insertBy_rankDesc)

lemma descending_unique:
  fixes xs ys :: "int list"
  assumes "sorted_wrt (\<ge>) xs" "sorted_wrt (\<ge>) ys" "mset xs = mset ys"
  shows "xs = ys"
proof -
  have sx: "sorted (rev xs)" and sy: "sorted (rev ys)"
    using assms(1,2) by (simp_all add: sorted_wrt_rev)
  have "mset (rev xs) = mset (rev ys)" using assms(3) by simp
  from properties_for_sort [OF this sx] have "sort (rev ys) = rev xs" .
  moreover from properties_for_sort [OF refl sy] have "sort (rev ys) = rev ys" .
  ultimately have "rev xs = rev ys" by simp
  then show ?thesis by simp
qed

lemma ranks_sortSlice_cong:
  assumes "mset h = mset h'"
  shows "map Rank (sortSlice rankDesc h) = map Rank (sortSlice rankDesc h')"
proof (rule descending_unique)
  show "sorted_wrt (\<ge>) (map Rank (sortSlice rankDesc h))" by (rule sorted_sortSlice_rankDesc)
  show "sorted_wrt (\<ge>) (map Rank (sortSlice rankDesc h'))" by (rule sorted_sortSlice_rankDesc)
  have "mset (map Rank (sortSlice rankDesc h)) = image_mset Rank (mset h)"
    by (simp add: mset_sortSlice)
  also have "\<dots> = image_mset Rank (mset h')" using assms by simp
  also have "\<dots> = mset (map Rank (sortSlice rankDesc h'))"
    by (simp add: mset_sortSlice)
  finally show "mset (map Rank (sortSlice rankDesc h)) = mset (map Rank (sortSlice rankDesc h'))" .
qed

lemma countBy_map: "countBy f xs = countBy (\<lambda>x. x) (map f xs)"
  by (simp add: countBy_def foldl_map)

lemma find_Rank: "map_option Rank (find (\<lambda>c. P (Rank c)) cs) = find P (map Rank cs)"
  by (induction cs) auto

lemma highestDifferentRank_ranks:
  "highestDifferentRank cards exclude =
     (case find (\<lambda>r. \<not> markAll exclude r) (map Rank cards) of Some r \<Rightarrow> r | None \<Rightarrow> Two)"
  using find_Rank [of "\<lambda>r. \<not> markAll exclude r" cards]
  by (auto simp: highestDifferentRank_def split: option.splits)

lemma collectKickers_eq:
  "length res < n \<Longrightarrow>
     collectKickers ex n cs res = res @ take (n - length res) (filter (\<lambda>r. \<not> ex r) (map Rank cs))"
proof (induction cs arbitrary: res)
  case Nil
  show ?case by simp
next
  case (Cons c cs)
  show ?case
  proof (cases "ex (Rank c)")
    case True
    with Cons show ?thesis by simp
  next
    case False
    show ?thesis
    proof (cases "Suc (length res) = n")
      case True
      then have "n - length res = Suc 0" by simp
      with False True show ?thesis by simp
    next
      case neq: False
      with Cons.prems have lt: "length (res @ [Rank c]) < n" by simp
      have "n - length res = Suc (n - Suc (length res))" using Cons.prems by simp
      with False neq Cons.IH [OF lt] show ?thesis by simp
    qed
  qed
qed

lemma ranks_cong:
  assumes "map Rank a = map Rank b"
  shows "detectStraight a = detectStraight b"
    and "ranksOnly a = ranksOnly b"
    and "countBy Rank a = countBy Rank b"
    and "highestDifferentRank a ex = highestDifferentRank b ex"
    and "topKickersExcluding a ex 2 = topKickersExcluding b ex 2"
    and "topThreeKickersExcluding a ex = topThreeKickersExcluding b ex"
proof -
  show "detectStraight a = detectStraight b" by (simp add: detectStraight_def assms)
  show "ranksOnly a = ranksOnly b" by (simp add: ranksOnly_def assms)
  show "countBy Rank a = countBy Rank b"
    using countBy_map [of Rank a] countBy_map [of Rank b] by (simp add: assms)
  show "highestDifferentRank a ex = highestDifferentRank b ex"
    by (simp add: highestDifferentRank_ranks assms)
  show "topKickersExcluding a ex 2 = topKickersExcluding b ex 2"
    by (simp add: topKickersExcluding_def collectKickers_eq assms)
  show "topThreeKickersExcluding a ex = topThreeKickersExcluding b ex"
    by (simp add: topThreeKickersExcluding_def collectKickers_eq assms)
qed

lemma classifySorted_cong:
  assumes la: "length a = 5" and lb: "length b = 5"
    and rk: "map Rank a = map Rank b"
    and su: "Suit ` set a = Suit ` set b"
  shows "classifySorted a = classifySorted b"
proof (cases "\<exists>s. \<forall>c\<in>set a. Suit c = s")
  case True
  then obtain s where sa: "\<forall>c\<in>set a. Suit c = s" ..
  then have "Suit ` set a \<subseteq> {s}" by auto
  with su have "Suit ` set b \<subseteq> {s}" by simp
  then have sb: "\<forall>c\<in>set b. Suit c = s" by auto
  have fa: "detectFlush a = (True, s)" using sa by (simp add: detectFlush_True_iff [OF la])
  have fb: "detectFlush b = (True, s)" using sb by (simp add: detectFlush_True_iff [OF lb])
  show ?thesis
    by (simp add: classifySorted_def fa fb filterBySuit_all [OF sa] filterBySuit_all [OF sb]
        ranks_cong(1,2) [OF rk] split: prod.split)
next
  case False
  then have fa: "detectFlush a = (False, Hearts)" using la by (intro detectFlush_False) simp_all
  from False have "\<not> (\<exists>s. Suit ` set a \<subseteq> {s})" by blast
  with su have "\<not> (\<exists>s. Suit ` set b \<subseteq> {s})" by simp
  then have "\<not> (\<exists>s. \<forall>c\<in>set b. Suit c = s)" by blast
  then have fb: "detectFlush b = (False, Hearts)" using lb by (intro detectFlush_False) simp_all
  show ?thesis
    unfolding classifySorted_def fa fb ranks_cong [OF rk] by simp
qed

lemma evaluate5_mset_cong:
  assumes "length h = 5" "mset h = mset h'"
  shows "evaluate5 h = evaluate5 h'"
proof -
  have "length h' = 5" using assms by (metis size_mset)
  moreover have "set (sortSlice rankDesc h) = set (sortSlice rankDesc h')"
    using assms(2) by (metis set_sortSlice set_mset_mset)
  ultimately show ?thesis
    unfolding evaluate5_def
    using assms(1) ranks_sortSlice_cong [OF assms(2)]
    by (intro classifySorted_cong) (simp_all add: length_sortSlice)
qed

subsection \<open>The classifier does not panic on five cards\<close>

lemma filter_neq_length: "length (filter (\<lambda>x. x \<noteq> a) xs) + count_list xs a = length xs"
  by (induction xs) auto

lemma kickers_available:
  assumes "length cards = 5" "int (count_list (map Rank cards) r) = 5 - int n" "0 < n"
  shows "length (collectKickers (markAll [r]) n cards []) = n"
proof -
  have "length (filter (\<lambda>x. x \<noteq> r) (map Rank cards)) + count_list (map Rank cards) r = 5"
    using filter_neq_length [of r "map Rank cards"] assms(1) by simp
  with assms(2) have "length (filter (\<lambda>x. x \<noteq> r) (map Rank cards)) = n" by simp
  moreover have "(\<lambda>x. \<not> markAll [r] x) = (\<lambda>x. x \<noteq> r)"
    by (simp add: markAll_iff fun_eq_iff)
  ultimately show ?thesis
    using assms(3) by (simp add: collectKickers_eq)
qed

lemma classifySorted_total:
  assumes len: "length cards = 5"
  shows "\<exists>v. classifySorted cards = Inr v"
proof -
  let ?ps = "sortSlice pairLess (countBy Rank cards)"
  from len obtain c0 where "c0 \<in> set cards" by (cases cards) auto
  then have "(Rank c0, int (count_list (map Rank cards) (Rank c0))) \<in> set (countBy Rank cards)"
    by (simp add: in_countBy_iff)
  then have "set ?ps \<noteq> {}" by (auto simp: set_sortSlice)
  then obtain p0 rest where ps: "?ps = p0 # rest" by (cases ?ps) auto
  then have "p0 \<in> set (countBy Rank cards)"
    by (metis list.set_intros(1) set_sortSlice)
  moreover obtain r0 n0 where "p0 = (r0, n0)" by (cases p0)
  ultimately have cnt: "snd p0 = int (count_list (map Rank cards) (fst p0))"
    by (simp add: in_countBy_iff)
  have k2: "snd p0 = 3 \<Longrightarrow> \<exists>k. topKickersExcluding cards [fst p0] 2 = Inr k"
    using kickers_available [OF len, of "fst p0" 2] cnt
    by (simp add: topKickersExcluding_def Let_def)
  have k3: "snd p0 = 2 \<Longrightarrow> \<exists>k. topThreeKickersExcluding cards [fst p0] = Inr k"
    using kickers_available [OF len, of "fst p0" 3] cnt
    by (simp add: topThreeKickersExcluding_def Let_def)
  obtain isFlush flushSuit where df: "detectFlush cards = (isFlush, flushSuit)"
    by (cases "detectFlush cards")
  obtain isStr topStr where ds: "detectStraight cards = (isStr, topStr)"
    by (cases "detectStraight cards")
  obtain isSF topSF where sf: "detectStraight (filterBySuit cards flushSuit) = (isSF, topSF)"
    by (cases "detectStraight (filterBySuit cards flushSuit)")
  show ?thesis
  proof (cases "isFlush \<or> isStr")
    case True
    then show ?thesis
      by (auto simp: classifySorted_def df ds sf Let_def)
  next
    case plain: False
    show ?thesis
    proof (cases "snd p0 = 3")
      case True
      from k2 [OF True] obtain k1 k2 where "topKickersExcluding cards [fst p0] 2 = Inr (k1, k2)"
        by auto
      with True plain show ?thesis
        by (simp add: classifySorted_def df ds ps Let_def)
    next
      case n3: False
      show ?thesis
      proof (cases "snd p0 = 2")
        case True
        from k3 [OF True] obtain k1 k2 k3
          where "topThreeKickersExcluding cards [fst p0] = Inr (k1, k2, k3)"
          by auto
        with True plain show ?thesis
          by (simp add: classifySorted_def df ds ps Let_def)
      next
        case False
        with n3 plain show ?thesis
          by (simp add: classifySorted_def df ds ps Let_def)
      qed
    qed
  qed
qed

lemma evaluate5_total: "length cards = 5 \<Longrightarrow> \<exists>v. evaluate5 cards = Inr v"
  unfolding evaluate5_def by (intro classifySorted_total) (simp add: length_sortSlice)

subsection \<open>The best hand is the maximum over the 21 five-card subsequences\<close>

definition ev5 :: "Card list \<Rightarrow> HandValue" where
  "ev5 h = projr (evaluate5 h)"

definition pick :: "HandValue \<Rightarrow> HandValue \<Rightarrow> HandValue" where
  "pick best hv = (if CompareHandValues hv best > 0 then hv else best)"

lemma evaluate5_ev5: "length h = 5 \<Longrightarrow> evaluate5 h = Inr (ev5 h)"
  using evaluate5_total [of h] by (auto simp: ev5_def)

lemma nextIndexes_steps:
  "nextIndexes [0, Suc 0, 2, 3, 4] = Some [0, Suc 0, 2, 3, 5]"
  "nextIndexes [0, Suc 0, 2, 3, 5] = Some [0, Suc 0, 2, 3, 6]"
  "nextIndexes [0, Suc 0, 2, 3, 6] = Some [0, Suc 0, 2, 4, 5]"
  "nextIndexes [0, Suc 0, 2, 4, 5] = Some [0, Suc 0, 2, 4, 6]"
  "nextIndexes [0, Suc 0, 2, 4, 6] = Some [0, Suc 0, 2, 5, 6]"
  "nextIndexes [0, Suc 0, 2, 5, 6] = Some [0, Suc 0, 3, 4, 5]"
  "nextIndexes [0, Suc 0, 3, 4, 5] = Some [0, Suc 0, 3, 4, 6]"
  "nextIndexes [0, Suc 0, 3, 4, 6] = Some [0, Suc 0, 3, 5, 6]"
  "nextIndexes [0, Suc 0, 3, 5, 6] = Some [0, Suc 0, 4, 5, 6]"
  "nextIndexes [0, Suc 0, 4, 5, 6] = Some [0, 2, 3, 4, 5]"
  "nextIndexes [0, 2, 3, 4, 5] = Some [0, 2, 3, 4, 6]"
  "nextIndexes [0, 2, 3, 4, 6] = Some [0, 2, 3, 5, 6]"
  "nextIndexes [0, 2, 3, 5, 6] = Some [0, 2, 4, 5, 6]"
  "nextIndexes [0, 2, 4, 5, 6] = Some [0, 3, 4, 5, 6]"
  "nextIndexes [0, 3, 4, 5, 6] = Some [Suc 0, 2, 3, 4, 5]"
  "nextIndexes [Suc 0, 2, 3, 4, 5] = Some [Suc 0, 2, 3, 4, 6]"
  "nextIndexes [Suc 0, 2, 3, 4, 6] = Some [Suc 0, 2, 3, 5, 6]"
  "nextIndexes [Suc 0, 2, 3, 5, 6] = Some [Suc 0, 2, 4, 5, 6]"
  "nextIndexes [Suc 0, 2, 4, 5, 6] = Some [Suc 0, 3, 4, 5, 6]"
  "nextIndexes [Suc 0, 3, 4, 5, 6] = Some [2, 3, 4, 5, 6]"
  "nextIndexes [2, 3, 4, 5, 6] = None"
  by code_simp+

lemma evalCombo_ev5:
  assumes "length cards = 7" "i0 < 7" "i1 < 7" "i2 < 7" "i3 < 7" "i4 < 7"
  shows "evalCombo cards [i0, i1, i2, i3, i4]
         = Inr (ev5 [cards ! i0, cards ! i1, cards ! i2, cards ! i3, cards ! i4])"
  using assms by (simp add: evalCombo_def evaluate5_ev5)

lemma bestLoop_step:
  assumes "nextIndexes ix = Some ix'" "evalCombo cards ix' = Inr hv"
  shows "bestLoop cards ix best = bestLoop cards ix' (pick best hv)"
  using assms by (subst bestLoop.simps) (simp add: pick_def)

lemma bestLoop_stop: "nextIndexes ix = None \<Longrightarrow> bestLoop cards ix best = Inr best"
  by (subst bestLoop.simps) simp

lemma combos_of_seven:
  "filter (\<lambda>h. length h = 5) (subseqs [a, b, c, d, e, f, g]) =
     [[a, b, c, d, e],
      [a, b, c, d, f],
      [a, b, c, d, g],
      [a, b, c, e, f],
      [a, b, c, e, g],
      [a, b, c, f, g],
      [a, b, d, e, f],
      [a, b, d, e, g],
      [a, b, d, f, g],
      [a, b, e, f, g],
      [a, c, d, e, f],
      [a, c, d, e, g],
      [a, c, d, f, g],
      [a, c, e, f, g],
      [a, d, e, f, g],
      [b, c, d, e, f],
      [b, c, d, e, g],
      [b, c, d, f, g],
      [b, c, e, f, g],
      [b, d, e, f, g],
      [c, d, e, f, g]]"
  by (simp add: Let_def)

lemma EvaluateBestHand_seven:
  "EvaluateBestHand [a, b, c, d, e, f, g] =
     Inr (foldl pick (ev5 [a, b, c, d, e])
           (map ev5 (tl (filter (\<lambda>h. length h = 5) (subseqs [a, b, c, d, e, f, g])))))"
proof -
  let ?cards = "[a, b, c, d, e, f, g]"
  have ev: "\<And>i0 i1 i2 i3 i4. i0 < 7 \<Longrightarrow> i1 < 7 \<Longrightarrow> i2 < 7 \<Longrightarrow> i3 < 7 \<Longrightarrow> i4 < 7 \<Longrightarrow>
      evalCombo ?cards [i0, i1, i2, i3, i4]
      = Inr (ev5 [?cards ! i0, ?cards ! i1, ?cards ! i2, ?cards ! i3, ?cards ! i4])"
    by (rule evalCombo_ev5) simp_all
  have step: "\<And>ix ix' best. nextIndexes ix = Some ix' \<Longrightarrow>
      bestLoop ?cards ix best
      = (case evalCombo ?cards ix' of Inl e \<Rightarrow> Inl e
         | Inr hv \<Rightarrow> bestLoop ?cards ix' (pick best hv))"
    by (subst bestLoop.simps) (simp add: pick_def split: sum.split)
  show ?thesis
    unfolding combos_of_seven EvaluateBestHand_def
    by (simp add: ev step nextIndexes_steps bestLoop_stop del: bestLoop.simps)
qed

lemma CompareHandValues_le_trans:
  assumes "CompareHandValues a b \<le> 0" "CompareHandValues b c \<le> 0"
  shows "CompareHandValues a c \<le> 0"
proof -
  have "0 \<le> CompareHandValues c b" "0 \<le> CompareHandValues b a"
    using assms CompareHandValues_antisym [of c b] CompareHandValues_antisym [of b a] by simp_all
  then have "0 \<le> CompareHandValues c a" by (rule CompareHandValues_trans)
  then show ?thesis using CompareHandValues_antisym [of a c] by simp
qed

lemma pick_cases: "pick best hv = best \<or> pick best hv = hv"
  by (simp add: pick_def)

lemma pick_upper:
  "CompareHandValues best (pick best hv) \<le> 0" "CompareHandValues hv (pick best hv) \<le> 0"
  using CompareHandValues_antisym [of best hv]
  by (simp_all add: pick_def CompareHandValues_refl)

lemma foldl_pick_max:
  "foldl pick v vs \<in> set (v # vs)
   \<and> (\<forall>w\<in>set (v # vs). CompareHandValues w (foldl pick v vs) \<le> 0)"
proof (induction vs arbitrary: v)
  case Nil
  show ?case by (simp add: CompareHandValues_refl)
next
  case (Cons x vs)
  let ?r = "foldl pick (pick v x) vs"
  from Cons [of "pick v x"] have mem: "?r \<in> set (pick v x # vs)"
    and ub: "\<forall>w\<in>set (pick v x # vs). CompareHandValues w ?r \<le> 0" by simp_all
  from ub have top: "CompareHandValues (pick v x) ?r \<le> 0" by simp
  have "CompareHandValues v ?r \<le> 0"
    using pick_upper(1) [of v x] top by (rule CompareHandValues_le_trans)
  moreover have "CompareHandValues x ?r \<le> 0"
    using pick_upper(2) [of x v] top by (rule CompareHandValues_le_trans)
  moreover have "?r \<in> set (v # x # vs)"
    using mem pick_cases [of v x] by auto
  ultimately show ?case using ub by simp
qed

lemma subseqs_mset_sub: "h \<in> set (subseqs xs) \<Longrightarrow> mset h \<subseteq># mset xs"
proof (induction xs arbitrary: h)
  case Nil
  then show ?case by simp
next
  case (Cons x xs)
  from Cons.prems consider h' where "h = x # h'" "h' \<in> set (subseqs xs)" | "h \<in> set (subseqs xs)"
    by (auto simp: Let_def)
  then show ?case
  proof cases
    case 1
    with Cons.IH [of h'] show ?thesis by simp
  next
    case 2
    with Cons.IH [of h] have "mset h \<subseteq># mset xs" by simp
    then have "mset h \<subseteq># add_mset x (mset xs)"
      using subset_mset.trans by fastforce
    then show ?thesis by simp
  qed
qed

lemma subseqs_of_submset: "M \<subseteq># mset xs \<Longrightarrow> \<exists>h\<in>set (subseqs xs). mset h = M"
proof (induction xs arbitrary: M)
  case Nil
  then show ?case by simp
next
  case (Cons x xs)
  show ?case
  proof (cases "x \<in># M")
    case True
    with Cons.prems have "M - {#x#} \<subseteq># mset xs"
      by (metis insert_DiffM add_mset_remove_trivial insert_subset_eq_iff mset.simps(2))
    from Cons.IH [OF this] obtain h where h: "h \<in> set (subseqs xs)" "mset h = M - {#x#}" by blast
    with True have "mset (x # h) = M" by simp
    moreover from h have "x # h \<in> set (subseqs (x # xs))" by (simp add: Let_def)
    ultimately show ?thesis by blast
  next
    case False
    with Cons.prems have "M \<subseteq># mset xs"
      by (metis Diff_eq_empty_iff_mset minus_add_mset_if_not_in_lhs mset.simps(2))
    from Cons.IH [OF this] obtain h where "h \<in> set (subseqs xs)" "mset h = M" by blast
    then show ?thesis by (auto simp: Let_def)
  qed
qed

lemma seven_cards: "length cards = 7 \<Longrightarrow> \<exists>a b c d e f g. cards = [a, b, c, d, e, f, g]"
  by (auto simp: length_Suc_conv eval_nat_numeral)

text \<open>
  On seven cards the evaluator returns a value; some 5-card subsequence has that value;
  and no 5-card subsequence has a greater one.
\<close>

lemma EvaluateBestHand_max:
  assumes "length cards = 7"
  shows "\<exists>r. EvaluateBestHand cards = Inr r
           \<and> (\<exists>h\<in>set (subseqs cards). length h = 5 \<and> r = ev5 h)
           \<and> (\<forall>h\<in>set (subseqs cards). length h = 5 \<longrightarrow> CompareHandValues (ev5 h) r \<le> 0)"
proof -
  from seven_cards [OF assms] obtain a b c d e f g where cards: "cards = [a, b, c, d, e, f, g]"
    by blast
  let ?cs = "filter (\<lambda>h. length h = 5) (subseqs cards)"
  let ?r = "foldl pick (ev5 (hd ?cs)) (map ev5 (tl ?cs))"
  have hd: "hd ?cs = [a, b, c, d, e]" and ne: "?cs \<noteq> []"
    unfolding cards combos_of_seven by simp_all
  have res: "EvaluateBestHand cards = Inr ?r"
    unfolding hd unfolding cards by (rule EvaluateBestHand_seven)
  have vals: "ev5 (hd ?cs) # map ev5 (tl ?cs) = map ev5 ?cs"
    using ne by (cases ?cs) simp_all
  from foldl_pick_max [of "ev5 (hd ?cs)" "map ev5 (tl ?cs)"]
  have mem: "?r \<in> set (map ev5 ?cs)"
    and ub: "\<forall>w\<in>set (map ev5 ?cs). CompareHandValues w ?r \<le> 0"
    unfolding vals by simp_all
  from mem have "\<exists>h\<in>set (subseqs cards). length h = 5 \<and> ?r = ev5 h" by auto
  moreover from ub have "\<forall>h\<in>set (subseqs cards). length h = 5 \<longrightarrow> CompareHandValues (ev5 h) ?r \<le> 0"
    by auto
  ultimately show ?thesis using res by blast
qed

lemma EvaluateBestHand_total: "length cards = 7 \<Longrightarrow> \<exists>r. EvaluateBestHand cards = Inr r"
  using EvaluateBestHand_max by blast

lemma ev5_mset_cong: "length h = 5 \<Longrightarrow> mset h = mset h' \<Longrightarrow> ev5 h = ev5 h'"
  by (simp add: ev5_def evaluate5_mset_cong)

lemma best_dominated:
  assumes lx: "length xs = 7" and ly: "length ys = 7" and eq: "mset ys = mset xs"
    and rx: "EvaluateBestHand xs = Inr rx" and ry: "EvaluateBestHand ys = Inr ry"
  shows "CompareHandValues rx ry \<le> 0"
proof -
  from EvaluateBestHand_max [OF lx] rx obtain h
    where h: "h \<in> set (subseqs xs)" "length h = 5" "rx = ev5 h" by auto
  from subseqs_mset_sub [OF h(1)] eq have "mset h \<subseteq># mset ys" by simp
  from subseqs_of_submset [OF this] obtain h' where h': "h' \<in> set (subseqs ys)" "mset h' = mset h"
    by blast
  from h'(2) h(2) have l': "length h' = 5" by (metis size_mset)
  have "ev5 h' = ev5 h" using l' h'(2) by (rule ev5_mset_cong)
  moreover from EvaluateBestHand_max [OF ly] ry h'(1) l'
  have "CompareHandValues (ev5 h') ry \<le> 0" by auto
  ultimately show ?thesis using h(3) by simp
qed

text \<open>
  C5. Reordering the cards does not change the result of \<open>EvaluateBestHand\<close>: the same
  category and the same kickers (for seven cards), and the same panic otherwise.
\<close>

theorem EvaluateBestHand_permutation_invariant:
  assumes "mset ys = mset xs"
  shows "EvaluateBestHand ys = EvaluateBestHand xs"
proof (cases "length xs = 7")
  case True
  with assms have ly: "length ys = 7" by (metis size_mset)
  from EvaluateBestHand_total [OF True] obtain rx where rx: "EvaluateBestHand xs = Inr rx" ..
  from EvaluateBestHand_total [OF ly] obtain ry where ry: "EvaluateBestHand ys = Inr ry" ..
  have "CompareHandValues rx ry \<le> 0"
    using True ly assms rx ry by (rule best_dominated)
  moreover have "CompareHandValues ry rx \<le> 0"
    using ly True assms [symmetric] ry rx by (rule best_dominated)
  ultimately have "CompareHandValues ry rx = 0"
    using CompareHandValues_antisym [of rx ry] by simp
  then have "ry = rx" by (simp add: CompareHandValues_eq_0)
  with rx ry show ?thesis by simp
next
  case False
  moreover with assms have "length ys \<noteq> 7" by (metis size_mset)
  ultimately show ?thesis by (simp add: EvaluateBestHand_def)
qed

theorem EvaluateBestHand_permutation_invariant_witness:
  "mset [mkCard Clubs King, mkCard Hearts Five, mkCard Diamonds Nine, mkCard Spades Four,
         mkCard Hearts Ace, mkCard Clubs Three, mkCard Diamonds Two]
   = mset [mkCard Hearts Ace, mkCard Diamonds Two, mkCard Clubs Three, mkCard Spades Four,
           mkCard Hearts Five, mkCard Diamonds Nine, mkCard Clubs King]
   \<and> EvaluateBestHand [mkCard Clubs King, mkCard Hearts Five, mkCard Diamonds Nine,
         mkCard Spades Four, mkCard Hearts Ace, mkCard Clubs Three, mkCard Diamonds Two]
     = Inr \<lparr>Category = Straight, Kickers = [Five]\<rparr>"
proof -
  have m: "mset [mkCard Clubs King, mkCard Hearts Five, mkCard Diamonds Nine, mkCard Spades Four,
         mkCard Hearts Ace, mkCard Clubs Three, mkCard Diamonds Two]
   = mset [mkCard Hearts Ace, mkCard Diamonds Two, mkCard Clubs Three, mkCard Spades Four,
           mkCard Hearts Five, mkCard Diamonds Nine, mkCard Clubs King]"
    by (simp add: add_mset_commute)
  from EvaluateBestHand_permutation_invariant [OF m] fixture4 m show ?thesis by simp
qed

subsection \<open>One trial\<close>

text \<open>
  The board of a trial and the hands read off the shuffled deck \<open>tmp\<close> by position: the
  board takes the first \<open>5 - |community|\<close> cards; with \<open>drawIdx\<close> cards gone, opponent
  \<open>i\<close> holds the two cards after the \<open>2 i\<close> cards of the opponents before, and the deck
  can serve \<open>dealt\<close> opponents.
\<close>

definition trialBoard :: "Card list \<Rightarrow> Card list \<Rightarrow> Card list" where
  "trialBoard community tmp = community @ take (5 - length community) tmp"

definition heroValue :: "Card list \<Rightarrow> Card list \<Rightarrow> HandValue" where
  "heroValue heroHole board = projr (EvaluateBestHand (heroHole @ board))"

definition oppValue :: "Card list \<Rightarrow> Card list \<Rightarrow> nat \<Rightarrow> nat \<Rightarrow> HandValue" where
  "oppValue tmp board drawIdx i =
     projr (EvaluateBestHand ([tmp ! (drawIdx + 2 * i), tmp ! (drawIdx + 2 * i + 1)] @ board))"

definition dealt :: "nat \<Rightarrow> Card list \<Rightarrow> nat \<Rightarrow> nat" where
  "dealt numOpponents tmp drawIdx = min numOpponents ((length tmp - drawIdx) div 2)"

lemma drawBoard_ok:
  "d + k \<le> length tmp \<Longrightarrow> drawBoard k tmp d sim = Inr (sim @ take k (drop d tmp), d + k)"
proof (induction k arbitrary: d sim)
  case 0
  show ?case by simp
next
  case (Suc k)
  then have d: "d < length tmp" by simp
  have "take (Suc k) (drop d tmp) = tmp ! d # take k (drop (Suc d) tmp)"
    using d by (metis Cons_nth_drop_Suc take_Suc_Cons)
  with Suc.IH [of "Suc d" "sim @ [tmp ! d]"] Suc.prems d show ?case by simp
qed

lemma oppValue_shift: "oppValue tmp board (d + 2) i = oppValue tmp board d (Suc i)"
  by (simp add: oppValue_def add.assoc)

lemma dealt_none: "length tmp < d + 2 \<Longrightarrow> dealt n tmp d = 0"
  by (simp add: dealt_def)

lemma dealt_Suc: "d + 2 \<le> length tmp \<Longrightarrow> dealt (Suc n) tmp d = Suc (dealt n tmp (d + 2))"
proof -
  assume "d + 2 \<le> length tmp"
  then have "(length tmp - d) div 2 = Suc ((length tmp - (d + 2)) div 2)" by presburger
  then show ?thesis by (simp add: dealt_def)
qed

lemma ex_less_Suc: "(\<exists>i<Suc m. Q i) \<longleftrightarrow> Q 0 \<or> (\<exists>i<m. Q (Suc i))"
  by (metis less_Suc_eq_0_disj)

lemma card_less_Suc:
  "card {i. i < Suc m \<and> P i} = (if P 0 then 1 else 0) + card {i. i < m \<and> P (Suc i)}"
proof -
  have set_eq: "{i. i < Suc m \<and> P i} = (if P 0 then {0} else {}) \<union> Suc ` {i. i < m \<and> P (Suc i)}"
    by (auto simp: less_Suc_eq_0_disj)
  have fin: "finite (Suc ` {i. i < m \<and> P (Suc i)})" by simp
  have disj: "(if P 0 then {0} else {}) \<inter> Suc ` {i. i < m \<and> P (Suc i)} = {}" by auto
  have img: "card (Suc ` {i. i < m \<and> P (Suc i)}) = card {i. i < m \<and> P (Suc i)}"
    by (simp add: card_image)
  have "card {i. i < Suc m \<and> P i}
      = card (if P 0 then {0} else {}) + card (Suc ` {i. i < m \<and> P (Suc i)})"
    unfolding set_eq using fin disj by (subst card_Un_disjoint) auto
  with img show ?thesis by (cases "P 0") simp_all
qed

lemma oppLoop_eq:
  assumes "length board = 5"
  shows "oppLoop n tmp board hb d vb eq =
     Inr (vb \<or> (\<exists>i<dealt n tmp d. CompareHandValues (oppValue tmp board d i) hb > 0),
          eq + int (card {i. i < dealt n tmp d \<and> CompareHandValues (oppValue tmp board d i) hb = 0}))"
proof (induction n arbitrary: d vb eq)
  case 0
  show ?case by (simp add: dealt_def)
next
  case (Suc n)
  show ?case
  proof (cases "d + 2 > length tmp")
    case True
    then show ?thesis by (simp add: dealt_none)
  next
    case False
    then have room: "d + 2 \<le> length tmp" by simp
    have len7: "length ([tmp ! d, tmp ! (d + 1)] @ board) = 7" using assms by simp
    from EvaluateBestHand_total [OF len7] obtain v0
      where v0: "EvaluateBestHand ([tmp ! d, tmp ! (d + 1)] @ board) = Inr v0" ..
    then have v00: "oppValue tmp board d 0 = v0" by (simp add: oppValue_def)
    let ?c = "CompareHandValues v0 hb"
    have unfold: "oppLoop (Suc n) tmp board hb d vb eq
        = oppLoop n tmp board hb (d + 2) (vb \<or> 0 < ?c) (eq + (if ?c = 0 then 1 else 0))"
    proof -
      consider (gt) "?c > 0" | (eq) "?c = 0" | (lt) "?c < 0" by linarith
      then show ?thesis
        using False v0 by cases (simp_all add: Let_def)
    qed
    have ex: "(\<exists>i<Suc (dealt n tmp (d + 2)). 0 < CompareHandValues (oppValue tmp board d i) hb)
        \<longleftrightarrow> 0 < ?c \<or> (\<exists>i<dealt n tmp (d + 2). 0 < CompareHandValues (oppValue tmp board d (Suc i)) hb)"
      unfolding ex_less_Suc v00 ..
    have cd: "card {i. i < Suc (dealt n tmp (d + 2)) \<and> CompareHandValues (oppValue tmp board d i) hb = 0}
        = (if ?c = 0 then 1 else 0)
          + card {i. i < dealt n tmp (d + 2) \<and> CompareHandValues (oppValue tmp board d (Suc i)) hb = 0}"
      unfolding card_less_Suc v00 ..
    show ?thesis
      unfolding unfold Suc.IH dealt_Suc [OF room] oppValue_shift ex cd
      by auto
  qed
qed

text \<open>
  What a trial returns whenever the board can be drawn: hero is compared with the
  opponents the deck can serve.
\<close>

lemma simulateOnce_eq:
  assumes hero: "length heroHole = 2" and comm: "length community \<le> 5"
    and board: "5 - length community \<le> length (shuffle deck)"
  shows "simulateOnce shuffle heroHole community deck numOpponents =
     Inr (if \<exists>i<dealt (nat numOpponents) (shuffle deck) (5 - length community).
               CompareHandValues
                 (oppValue (shuffle deck) (trialBoard community (shuffle deck)) (5 - length community) i)
                 (heroValue heroHole (trialBoard community (shuffle deck))) > 0
          then (False, True, False)
          else if \<exists>i<dealt (nat numOpponents) (shuffle deck) (5 - length community).
               CompareHandValues
                 (oppValue (shuffle deck) (trialBoard community (shuffle deck)) (5 - length community) i)
                 (heroValue heroHole (trialBoard community (shuffle deck))) = 0
          then (False, False, True)
          else (True, False, False))"
proof -
  let ?tmp = "shuffle deck"
  let ?k = "5 - length community"
  let ?sim = "trialBoard community ?tmp"
  have nat_k: "nat (5 - int (length community)) = ?k" using comm by simp
  have draw: "drawBoard ?k ?tmp 0 community = Inr (?sim, ?k)"
    using drawBoard_ok [of 0 ?k ?tmp community] board by (simp add: trialBoard_def)
  have lsim: "length ?sim = 5" using comm board by (simp add: trialBoard_def)
  then have "length (heroHole @ ?sim) = 7" using hero by simp
  from EvaluateBestHand_total [OF this] obtain hb
    where hb: "EvaluateBestHand (heroHole @ ?sim) = Inr hb" ..
  then have hv: "heroValue heroHole ?sim = hb" by (simp add: heroValue_def)
  let ?P = "\<lambda>i. CompareHandValues (oppValue ?tmp ?sim ?k i) hb = 0"
  let ?Q = "\<lambda>i. CompareHandValues (oppValue ?tmp ?sim ?k i) hb > 0"
  let ?m = "dealt (nat numOpponents) ?tmp ?k"
  have opp: "oppLoop (nat numOpponents) ?tmp ?sim hb ?k False 0
      = Inr (\<exists>i<?m. ?Q i, int (card {i. i < ?m \<and> ?P i}))"
    unfolding oppLoop_eq [OF lsim] by simp
  have fin: "finite {i. i < ?m \<and> ?P i}" by simp
  have card_pos: "0 < int (card {i. i < ?m \<and> ?P i}) \<longleftrightarrow> (\<exists>i<?m. ?P i)"
    using fin by (auto simp: card_gt_0_iff)
  have "simulateOnce shuffle heroHole community deck numOpponents =
      (if \<exists>i<?m. ?Q i then Inr (False, True, False)
       else if 0 < int (card {i. i < ?m \<and> ?P i}) then Inr (False, False, True)
       else Inr (True, False, False))"
    unfolding simulateOnce_def Let_def nat_k draw by (simp add: hb opp)
  then show ?thesis
    unfolding card_pos hv by simp
qed

text \<open>
  C7. With a valid hole, community and opponent count, a trial count of zero or less is
  answered with the all-zero result, not with a panic.
\<close>

theorem SimulateEquity_no_trials:
  assumes "length heroHole = 2" and "length community \<in> {0, 3, 4, 5}"
    and "1 \<le> numOpponents" and "trials \<le> 0"
  shows "SimulateEquity rng heroHole community numOpponents trials
         = Inr \<lparr>HeroWins = 0, VillainWins = 0, Ties = 0, TrialsRun = 0\<rparr>"
  using assms by (auto simp: SimulateEquity_def emptyResult_def)

theorem SimulateEquity_no_trials_witness:
  "length [mkCard Hearts Ace, mkCard Spades Seven] = 2
   \<and> length [mkCard Clubs Two, mkCard Clubs Nine, mkCard Diamonds Jack] \<in> {0, 3, 4, 5}
   \<and> (1::int) \<le> 3 \<and> (- 5::int) \<le> 0
   \<and> SimulateEquity (\<lambda>w i d. d) [mkCard Hearts Ace, mkCard Spades Seven]
        [mkCard Clubs Two, mkCard Clubs Nine, mkCard Diamonds Jack] 3 (- 5)
      = Inr \<lparr>HeroWins = 0, VillainWins = 0, Ties = 0, TrialsRun = 0\<rparr>"
proof -
  have 1: "length [mkCard Hearts Ace, mkCard Spades Seven] = 2" by simp
  have 2: "length [mkCard Clubs Two, mkCard Clubs Nine, mkCard Diamonds Jack] \<in> {0, 3, 4, 5}"
    by simp
  have 3: "(1::int) \<le> 3" by simp
  have 4: "(- 5::int) \<le> 0" by simp
  from SimulateEquity_no_trials [OF 1 2 3 4] 1 2 show ?thesis by simp
qed

subsection \<open>The whole simulation\<close>

lemma length_FullDeck: "length FullDeck = 52"
  by code_simp

lemma distinct_Str_FullDeck: "distinct (map Str FullDeck)"
  by code_simp

lemma filterDeck_length_ge:
  "52 - (length heroHole + length community) \<le> length (filterDeck heroHole community)"
proof -
  let ?U = "set (map Str heroHole @ map Str community)"
  let ?gone = "filter (\<lambda>c. Str c \<in> ?U) FullDeck"
  have "distinct (map Str ?gone)"
    using distinct_Str_FullDeck by (rule distinct_map_filter)
  then have "length ?gone = card (set (map Str ?gone))"
    by (metis distinct_card length_map)
  also have "\<dots> \<le> card ?U"
    by (intro card_mono) auto
  also have "\<dots> \<le> length (map Str heroHole @ map Str community)"
    by (rule card_length)
  finally have gone: "length ?gone \<le> length heroHole + length community" by simp
  have "length ?gone + length (filter (\<lambda>c. Str c \<notin> ?U) FullDeck) = 52"
    using sum_length_filter_compl [of "\<lambda>c. Str c \<in> ?U" FullDeck] by (simp add: length_FullDeck)
  with gone show ?thesis by (simp add: filterDeck_def)
qed

lemma filterDeck_length:
  assumes "length heroHole + length community \<le> 7"
  shows "45 \<le> length (filterDeck heroHole community)"
  using filterDeck_length_ge [of heroHole community] assms by simp

lemma simulateOnce_one_flag:
  assumes "length heroHole = 2" and "length community \<le> 5"
    and "5 - length community \<le> length (shuffle deck)"
  shows "simulateOnce shuffle heroHole community deck numOpponents = Inr (True, False, False)
       \<or> simulateOnce shuffle heroHole community deck numOpponents = Inr (False, True, False)
       \<or> simulateOnce shuffle heroHole community deck numOpponents = Inr (False, False, True)"
  using simulateOnce_eq [of heroHole community shuffle deck numOpponents] assms
  by (cases "\<exists>i<dealt (nat numOpponents) (shuffle deck) (5 - length community).
               CompareHandValues
                 (oppValue (shuffle deck) (trialBoard community (shuffle deck)) (5 - length community) i)
                 (heroValue heroHole (trialBoard community (shuffle deck))) > 0";
      cases "\<exists>i<dealt (nat numOpponents) (shuffle deck) (5 - length community).
               CompareHandValues
                 (oppValue (shuffle deck) (trialBoard community (shuffle deck)) (5 - length community) i)
                 (heroValue heroHole (trialBoard community (shuffle deck))) = 0")
    simp_all

definition balanced :: "SimulationResult \<Rightarrow> bool" where
  "balanced r \<longleftrightarrow> HeroWins r + VillainWins r + Ties r = TrialsRun r"

lemma workerLoop_counts:
  assumes flag: "\<And>i. simulateOnce (rngw i) heroHole community filtered numOpponents = Inr (True, False, False)
       \<or> simulateOnce (rngw i) heroHole community filtered numOpponents = Inr (False, True, False)
       \<or> simulateOnce (rngw i) heroHole community filtered numOpponents = Inr (False, False, True)"
    and "balanced local"
  shows "\<exists>r. workerLoop rngw heroHole community filtered numOpponents js local = Inr r
           \<and> balanced r \<and> TrialsRun r = TrialsRun local + int (length js)"
  using assms(2)
proof (induction js arbitrary: local)
  case Nil
  then show ?case by simp
next
  case (Cons i js)
  have "\<exists>l. workerLoop rngw heroHole community filtered numOpponents (i # js) local
            = workerLoop rngw heroHole community filtered numOpponents js l
          \<and> balanced l \<and> TrialsRun l = TrialsRun local + 1"
  proof -
    from flag [of i] consider
        (hero) "simulateOnce (rngw i) heroHole community filtered numOpponents = Inr (True, False, False)"
      | (villain) "simulateOnce (rngw i) heroHole community filtered numOpponents = Inr (False, True, False)"
      | (tie) "simulateOnce (rngw i) heroHole community filtered numOpponents = Inr (False, False, True)"
      by blast
    then show ?thesis
    proof cases
      case hero
      let ?l = "local\<lparr>HeroWins := HeroWins local + 1, TrialsRun := TrialsRun local + 1\<rparr>"
      have "workerLoop rngw heroHole community filtered numOpponents (i # js) local
          = workerLoop rngw heroHole community filtered numOpponents js ?l"
        using hero by (simp add: Let_def)
      moreover have "balanced ?l" "TrialsRun ?l = TrialsRun local + 1"
        using Cons.prems by (simp_all add: balanced_def)
      ultimately show ?thesis by blast
    next
      case villain
      let ?l = "local\<lparr>VillainWins := VillainWins local + 1, TrialsRun := TrialsRun local + 1\<rparr>"
      have "workerLoop rngw heroHole community filtered numOpponents (i # js) local
          = workerLoop rngw heroHole community filtered numOpponents js ?l"
        using villain by (simp add: Let_def)
      moreover have "balanced ?l" "TrialsRun ?l = TrialsRun local + 1"
        using Cons.prems by (simp_all add: balanced_def)
      ultimately show ?thesis by blast
    next
      case tie
      let ?l = "local\<lparr>Ties := Ties local + 1, TrialsRun := TrialsRun local + 1\<rparr>"
      have "workerLoop rngw heroHole community filtered numOpponents (i # js) local
          = workerLoop rngw heroHole community filtered numOpponents js ?l"
        using tie by (simp add: Let_def)
      moreover have "balanced ?l" "TrialsRun ?l = TrialsRun local + 1"
        using Cons.prems by (simp_all add: balanced_def)
      ultimately show ?thesis by blast
    qed
  qed
  then obtain l where step: "workerLoop rngw heroHole community filtered numOpponents (i # js) local
            = workerLoop rngw heroHole community filtered numOpponents js l"
    and bl: "balanced l" and tl: "TrialsRun l = TrialsRun local + 1" by blast
  from Cons.IH [OF bl] obtain r
    where "workerLoop rngw heroHole community filtered numOpponents js l = Inr r"
      "balanced r" "TrialsRun r = TrialsRun l + int (length js)" by blast
  with step tl show ?case by simp
qed

lemma sumPartials_Inr:
  "sumPartials (map Inr rs) final =
     Inr \<lparr>HeroWins = HeroWins final + sum_list (map HeroWins rs),
          VillainWins = VillainWins final + sum_list (map VillainWins rs),
          Ties = Ties final + sum_list (map Ties rs),
          TrialsRun = TrialsRun final + sum_list (map TrialsRun rs)\<rparr>"
proof (induction rs arbitrary: final)
  case Nil
  show ?case by simp
next
  case (Cons r rs)
  show ?case by (simp add: Cons.IH add.assoc)
qed

lemma sum_list_balanced:
  "\<forall>r\<in>set rs. balanced r \<Longrightarrow>
     sum_list (map HeroWins rs) + sum_list (map VillainWins rs) + sum_list (map Ties rs)
     = sum_list (map TrialsRun rs)"
  by (induction rs) (auto simp: balanced_def)

lemma split_sum:
  "sum_list (map (\<lambda>w. if w = 0 then a + b else a) [0..<Suc n]) = b + (1 + int n) * (a :: int)"
  by (induction n) (simp_all add: algebra_simps)

text \<open>
  For \<open>trials \<ge> 1\<close> Go's truncating \<^verbatim>\<open>/\<close> and \<^verbatim>\<open>%\<close> agree with \<open>div\<close> and \<open>mod\<close>. The worker
  counts add up to the trials requested.
\<close>

lemma worker_split:
  assumes "1 \<le> trials" and "workers = (if trials < 4 then trials else 4)"
  shows "sum_list (map (\<lambda>w. if w = 0 then trials div workers + trials mod workers
                              else trials div workers) [0..<nat workers]) = trials"
proof -
  from assms have w: "1 \<le> workers" by auto
  then obtain n where n: "nat workers = Suc n" by (cases "nat workers") auto
  with w have wn: "1 + int n = workers" by simp
  have "workers * (trials div workers) + trials mod workers = trials" by simp
  then have "trials mod workers + workers * (trials div workers) = trials" by simp
  then show ?thesis
    unfolding n split_sum wn .
qed

lemma SimulateEquity_total:
  assumes hero: "length heroHole = 2" and comm: "length community \<in> {0, 3, 4, 5}"
    and opp: "1 \<le> numOpponents" and tr: "1 \<le> trials"
    and perm: "\<And>w i d. mset (rng w i d) = mset d"
  shows "\<exists>r. SimulateEquity rng heroHole community numOpponents trials = Inr r
           \<and> balanced r \<and> TrialsRun r = trials"
proof -
  let ?deck = "filterDeck heroHole community"
  let ?W = "if trials < 4 then trials else 4"
  let ?tw = "\<lambda>w::nat. if w = 0 then trials div ?W + trials mod ?W else trials div ?W"
  let ?f = "\<lambda>w. worker (rng w) heroHole community ?deck numOpponents (?tw w)"
  from comm have c5: "length community \<le> 5" by auto
  with hero have "45 \<le> length ?deck" by (intro filterDeck_length) simp
  moreover have len: "\<And>w i. length (rng w i ?deck) = length ?deck"
    using perm by (metis size_mset)
  ultimately have board: "\<And>w i. 5 - length community \<le> length (rng w i ?deck)" by simp
  have flag: "\<And>w i. simulateOnce (rng w i) heroHole community ?deck numOpponents = Inr (True, False, False)
       \<or> simulateOnce (rng w i) heroHole community ?deck numOpponents = Inr (False, True, False)
       \<or> simulateOnce (rng w i) heroHole community ?deck numOpponents = Inr (False, False, True)"
    using hero c5 board by (rule simulateOnce_one_flag)
  have nonneg: "\<And>w. 0 \<le> ?tw w"
    using tr by (simp add: pos_imp_zdiv_nonneg_iff)
  have each: "\<And>w. \<exists>r. ?f w = Inr r \<and> balanced r \<and> TrialsRun r = ?tw w"
  proof -
    fix w
    have b0: "balanced emptyResult" by (simp add: balanced_def emptyResult_def)
    from workerLoop_counts [of "rng w" heroHole community ?deck numOpponents emptyResult
        "[0..<nat (?tw w)]", OF flag b0]
    obtain r where "workerLoop (rng w) heroHole community ?deck numOpponents [0..<nat (?tw w)] emptyResult = Inr r"
      "balanced r" "TrialsRun r = TrialsRun emptyResult + int (length [0..<nat (?tw w)])"
      by blast
    with nonneg [of w] show "\<exists>r. ?f w = Inr r \<and> balanced r \<and> TrialsRun r = ?tw w"
      by (simp add: worker_def emptyResult_def)
  qed
  have proj: "\<And>w. ?f w = Inr (projr (?f w)) \<and> balanced (projr (?f w))
      \<and> TrialsRun (projr (?f w)) = ?tw w"
  proof -
    fix w
    from each [of w] obtain r where "?f w = Inr r" "balanced r" "TrialsRun r = ?tw w" by blast
    then show "?f w = Inr (projr (?f w)) \<and> balanced (projr (?f w))
      \<and> TrialsRun (projr (?f w)) = ?tw w" by simp
  qed
  let ?rs = "map (\<lambda>w. projr (?f w)) [0..<nat ?W]"
  have parts: "map ?f [0..<nat ?W] = map Inr ?rs"
    unfolding map_map comp_def by (rule map_cong [OF refl]) (use proj in blast)
  have bal: "\<forall>r\<in>set ?rs. balanced r"
    using proj by (simp add: image_iff)
  have runs: "map TrialsRun ?rs = map ?tw [0..<nat ?W]"
    unfolding map_map comp_def by (rule map_cong [OF refl]) (use proj in blast)
  have total: "sum_list (map TrialsRun ?rs) = trials"
    unfolding runs using worker_split [OF tr refl] .
  have "SimulateEquity rng heroHole community numOpponents trials
      = sumPartials (map ?f [0..<nat ?W]) emptyResult"
    using hero comm opp tr by (auto simp: SimulateEquity_def Let_def)
  also have "\<dots> = Inr \<lparr>HeroWins = sum_list (map HeroWins ?rs),
          VillainWins = sum_list (map VillainWins ?rs),
          Ties = sum_list (map Ties ?rs),
          TrialsRun = sum_list (map TrialsRun ?rs)\<rparr>"
    unfolding parts sumPartials_Inr by (simp add: emptyResult_def)
  finally show ?thesis
    using sum_list_balanced [OF bal] total by (simp add: balanced_def)
qed

text \<open>
  C6. For a hole of two cards, a community of 0, 3, 4 or 5 cards, at least one opponent,
  at least one trial and random sources that permute the deck, the simulation returns a
  result whose three tallies add up to \<open>TrialsRun\<close>, and \<open>TrialsRun\<close> is the number of
  trials requested; the per-worker counts (the quotient, plus the remainder for worker
  0) add up to that number. The cards need not be distinct for this.
\<close>

theorem SimulateEquity_counts:
  assumes "length heroHole = 2" and "length community \<in> {0, 3, 4, 5}"
    and "1 \<le> numOpponents" and "1 \<le> trials"
    and "\<And>w i d. mset (rng w i d) = mset d"
  shows "(\<exists>r. SimulateEquity rng heroHole community numOpponents trials = Inr r
            \<and> HeroWins r + VillainWins r + Ties r = TrialsRun r
            \<and> TrialsRun r = trials)
         \<and> sum_list (map (\<lambda>w. if w = 0
                               then trials div (if trials < 4 then trials else 4)
                                    + trials mod (if trials < 4 then trials else 4)
                               else trials div (if trials < 4 then trials else 4))
                          [0..<nat (if trials < 4 then trials else 4)]) = trials"
proof
  from SimulateEquity_total [OF assms]
  show "\<exists>r. SimulateEquity rng heroHole community numOpponents trials = Inr r
            \<and> HeroWins r + VillainWins r + Ties r = TrialsRun r
            \<and> TrialsRun r = trials"
    by (simp add: balanced_def)
  show "sum_list (map (\<lambda>w. if w = 0
                               then trials div (if trials < 4 then trials else 4)
                                    + trials mod (if trials < 4 then trials else 4)
                               else trials div (if trials < 4 then trials else 4))
                          [0..<nat (if trials < 4 then trials else 4)]) = trials"
    using assms(4) by (rule worker_split) (rule refl)
qed

lemma mset_rotate1: "mset (rotate1 xs) = mset xs"
  by (cases xs) simp_all

lemma mset_rotate: "mset (rotate n xs) = mset xs"
  by (induction n) (simp_all add: mset_rotate1)

definition rotating :: "nat \<Rightarrow> nat \<Rightarrow> Card list \<Rightarrow> Card list" where
  "rotating w i d = rotate (w + 7 * i) d"

theorem SimulateEquity_counts_witness:
  "length [mkCard Hearts Ace, mkCard Diamonds King] = 2
   \<and> length ([] :: Card list) \<in> {0, 3, 4, 5}
   \<and> (1::int) \<le> 3 \<and> (1::int) \<le> 10
   \<and> (\<forall>w i d. mset (rotating w i d) = mset d)
   \<and> (\<exists>r. SimulateEquity rotating [mkCard Hearts Ace, mkCard Diamonds King] [] 3 10 = Inr r
            \<and> HeroWins r + VillainWins r + Ties r = TrialsRun r
            \<and> TrialsRun r = 10)"
proof -
  have 1: "length [mkCard Hearts Ace, mkCard Diamonds King] = 2" by simp
  have 2: "length ([] :: Card list) \<in> {0, 3, 4, 5}" by simp
  have 3: "(1::int) \<le> 3" by simp
  have 4: "(1::int) \<le> 10" by simp
  have 5: "\<And>w i d. mset (rotating w i d) = mset d" by (simp add: rotating_def mset_rotate)
  from SimulateEquity_counts [of "[mkCard Hearts Ace, mkCard Diamonds King]" "[]" 3 10 rotating,
      OF 1 2 3 4 5]
  have "\<exists>r. SimulateEquity rotating [mkCard Hearts Ace, mkCard Diamonds King] [] 3 10 = Inr r
            \<and> HeroWins r + VillainWins r + Ties r = TrialsRun r
            \<and> TrialsRun r = 10"
    by (rule conjunct1)
  with 1 2 3 4 5 show ?thesis by blast
qed

subsection \<open>The outcome of every trial\<close>

definition unshuffled :: "nat \<Rightarrow> nat \<Rightarrow> Card list \<Rightarrow> Card list" where
  "unshuffled w i d = d"

text \<open>
  C2. Every trial the simulation runs (any worker \<open>w\<close>, any trial \<open>i\<close>, any number of
  opponents) returns, without a panic, the triple \<open>(heroWin, villainWin, tie)\<close> decided
  by comparing hero's value with the value of every opponent holding cards: a villain
  win if some opponent's value is strictly greater, else a tie if some opponent's value
  equals hero's, else a hero win; so exactly one flag is set. The opponents holding cards
  are the first \<open>dealt\<close> ones: as many as requested or as the deck left after the board
  can serve with two cards each, whichever is less. Up to 22 requested opponents that is
  every one of them.
\<close>

theorem simulateOnce_outcome:
  assumes "length heroHole = 2" and "length community \<in> {0, 3, 4, 5}"
    and "\<And>w i d. mset (rng w i d) = mset d"
  shows "simulateOnce (rng w i) heroHole community (filterDeck heroHole community) numOpponents =
     Inr (if \<exists>j<dealt (nat numOpponents) (rng w i (filterDeck heroHole community))
                      (5 - length community).
               CompareHandValues
                 (oppValue (rng w i (filterDeck heroHole community))
                    (trialBoard community (rng w i (filterDeck heroHole community)))
                    (5 - length community) j)
                 (heroValue heroHole
                    (trialBoard community (rng w i (filterDeck heroHole community)))) > 0
          then (False, True, False)
          else if \<exists>j<dealt (nat numOpponents) (rng w i (filterDeck heroHole community))
                      (5 - length community).
               CompareHandValues
                 (oppValue (rng w i (filterDeck heroHole community))
                    (trialBoard community (rng w i (filterDeck heroHole community)))
                    (5 - length community) j)
                 (heroValue heroHole
                    (trialBoard community (rng w i (filterDeck heroHole community)))) = 0
          then (False, False, True)
          else (True, False, False))
     \<and> dealt (nat numOpponents) (rng w i (filterDeck heroHole community)) (5 - length community)
         = min (nat numOpponents)
             ((length (filterDeck heroHole community) - (5 - length community)) div 2)
     \<and> (numOpponents \<le> 22 \<longrightarrow>
          dealt (nat numOpponents) (rng w i (filterDeck heroHole community)) (5 - length community)
          = nat numOpponents)"
proof (intro conjI impI)
  let ?deck = "filterDeck heroHole community"
  let ?k = "5 - length community"
  from assms(2) have c5: "length community \<le> 5" by auto
  have len: "length (rng w i ?deck) = length ?deck"
    using assms(3) by (metis size_mset)
  have ge: "52 - (2 + length community) \<le> length ?deck"
    using filterDeck_length_ge [of heroHole community] assms(1) by simp
  with c5 len have board: "?k \<le> length (rng w i ?deck)" by simp
  show "simulateOnce (rng w i) heroHole community ?deck numOpponents =
     Inr (if \<exists>j<dealt (nat numOpponents) (rng w i ?deck) ?k.
               CompareHandValues
                 (oppValue (rng w i ?deck) (trialBoard community (rng w i ?deck)) ?k j)
                 (heroValue heroHole (trialBoard community (rng w i ?deck))) > 0
          then (False, True, False)
          else if \<exists>j<dealt (nat numOpponents) (rng w i ?deck) ?k.
               CompareHandValues
                 (oppValue (rng w i ?deck) (trialBoard community (rng w i ?deck)) ?k j)
                 (heroValue heroHole (trialBoard community (rng w i ?deck))) = 0
          then (False, False, True)
          else (True, False, False))"
    using assms(1) c5 board by (rule simulateOnce_eq [of heroHole community "rng w i" ?deck])
  show d: "dealt (nat numOpponents) (rng w i ?deck) ?k
         = min (nat numOpponents) ((length ?deck - ?k) div 2)"
    by (simp add: dealt_def len)
  assume "numOpponents \<le> 22"
  moreover from ge c5 have "22 \<le> (length ?deck - ?k) div 2" by simp
  ultimately show "dealt (nat numOpponents) (rng w i ?deck) ?k = nat numOpponents"
    unfolding d by simp
qed

lemma short_deck_trial:
  "length (filterDeck [mkCard Hearts Ace, mkCard Hearts King]
      [mkCard Hearts Queen, mkCard Hearts Jack, mkCard Hearts Ten, mkCard Spades Two,
      mkCard Spades Three]) = 45"
  "simulateOnce (unshuffled 0 0) [mkCard Hearts Ace, mkCard Hearts King]
     [mkCard Hearts Queen, mkCard Hearts Jack, mkCard Hearts Ten, mkCard Spades Two,
      mkCard Spades Three]
     (filterDeck [mkCard Hearts Ace, mkCard Hearts King]
        [mkCard Hearts Queen, mkCard Hearts Jack, mkCard Hearts Ten, mkCard Spades Two,
      mkCard Spades Three]) 23
   = Inr (True, False, False)"
  by code_simp+

theorem simulateOnce_outcome_witness:
  "length [mkCard Hearts Ace, mkCard Hearts King] = 2
   \<and> length [mkCard Hearts Queen, mkCard Hearts Jack, mkCard Hearts Ten, mkCard Spades Two,
      mkCard Spades Three] \<in> {0, 3, 4, 5}
   \<and> (\<forall>w i d. mset (unshuffled w i d) = mset d)
   \<and> simulateOnce (unshuffled 0 0) [mkCard Hearts Ace, mkCard Hearts King]
        [mkCard Hearts Queen, mkCard Hearts Jack, mkCard Hearts Ten, mkCard Spades Two,
      mkCard Spades Three]
        (filterDeck [mkCard Hearts Ace, mkCard Hearts King]
           [mkCard Hearts Queen, mkCard Hearts Jack, mkCard Hearts Ten, mkCard Spades Two,
      mkCard Spades Three]) 23
      = Inr (True, False, False)
   \<and> dealt (nat 23)
        (unshuffled 0 0
          (filterDeck [mkCard Hearts Ace, mkCard Hearts King]
             [mkCard Hearts Queen, mkCard Hearts Jack, mkCard Hearts Ten, mkCard Spades Two,
      mkCard Spades Three])) 0 = 22
   \<and> \<not> (\<exists>j<22.
          CompareHandValues
            (oppValue
               (unshuffled 0 0
                 (filterDeck [mkCard Hearts Ace, mkCard Hearts King]
                    [mkCard Hearts Queen, mkCard Hearts Jack, mkCard Hearts Ten, mkCard Spades Two,
      mkCard Spades Three]))
               (trialBoard [mkCard Hearts Queen, mkCard Hearts Jack, mkCard Hearts Ten, mkCard Spades Two,
      mkCard Spades Three]
                 (unshuffled 0 0
                   (filterDeck [mkCard Hearts Ace, mkCard Hearts King]
                      [mkCard Hearts Queen, mkCard Hearts Jack, mkCard Hearts Ten, mkCard Spades Two,
      mkCard Spades Three]))) 0 j)
            (heroValue [mkCard Hearts Ace, mkCard Hearts King]
               (trialBoard [mkCard Hearts Queen, mkCard Hearts Jack, mkCard Hearts Ten, mkCard Spades Two,
      mkCard Spades Three]
                 (unshuffled 0 0
                   (filterDeck [mkCard Hearts Ace, mkCard Hearts King]
                      [mkCard Hearts Queen, mkCard Hearts Jack, mkCard Hearts Ten, mkCard Spades Two,
      mkCard Spades Three])))) \<ge> 0)"
proof -
  let ?hero = "[mkCard Hearts Ace, mkCard Hearts King]"
  let ?comm = "[mkCard Hearts Queen, mkCard Hearts Jack, mkCard Hearts Ten, mkCard Spades Two,
      mkCard Spades Three]"
  let ?tmp = "unshuffled 0 0 (filterDeck ?hero ?comm)"
  have 1: "length ?hero = 2" by simp
  have 2: "length ?comm \<in> {0, 3, 4, 5}" by simp
  have 3: "\<And>w i d. mset (unshuffled w i d) = mset d" by (simp add: unshuffled_def)
  have k: "5 - length ?comm = 0" by simp
  note t = simulateOnce_outcome [of ?hero ?comm unshuffled 0 0 23, OF 1 2 3, unfolded k]
  from t have "dealt (nat 23) ?tmp 0 = min (nat 23) ((length (filterDeck ?hero ?comm) - 0) div 2)"
    by (elim conjE)
  then have d: "dealt (nat 23) ?tmp 0 = 22"
    unfolding short_deck_trial(1) by simp
  let ?cmp = "\<lambda>j. CompareHandValues (oppValue ?tmp (trialBoard ?comm ?tmp) 0 j)
                      (heroValue ?hero (trialBoard ?comm ?tmp))"
  from t have "simulateOnce (unshuffled 0 0) ?hero ?comm (filterDeck ?hero ?comm) 23 =
     Inr (if \<exists>j<22. ?cmp j > 0 then (False, True, False)
          else if \<exists>j<22. ?cmp j = 0 then (False, False, True)
          else (True, False, False))"
    unfolding d by (elim conjE)
  then have "(if \<exists>j<22. ?cmp j > 0 then (False, True, False)
          else if \<exists>j<22. ?cmp j = 0 then (False, False, True)
          else (True, False, False)) = (True, False, False)"
    unfolding short_deck_trial(2) by simp
  then have "\<not> (\<exists>j<22. ?cmp j > 0)" and "\<not> (\<exists>j<22. ?cmp j = 0)"
    by (auto split: if_splits)
  then have none: "\<not> (\<exists>j<22. ?cmp j \<ge> 0)"
    by (metis order_le_less)
  from 1 2 3 short_deck_trial(2) d none show ?thesis by blast
qed

subsection \<open>More opponents than the deck can serve\<close>

text \<open>
  C8, as stated, fails. Hero holds the ace and king of hearts, the board is complete, and
  23 opponents are asked for: the deck has 45 cards, so the 23rd opponent cannot be
  dealt. The simulation reports no error; the trial is counted as a hero win.
\<close>

theorem SimulateEquity_short_deck_counterexample:
  "length (filterDeck [mkCard Hearts Ace, mkCard Hearts King]
             [mkCard Hearts Queen, mkCard Hearts Jack, mkCard Hearts Ten, mkCard Spades Two,
              mkCard Spades Three]) = 45
   \<and> (45::nat) < 2 * nat 23
   \<and> SimulateEquity unshuffled [mkCard Hearts Ace, mkCard Hearts King]
        [mkCard Hearts Queen, mkCard Hearts Jack, mkCard Hearts Ten, mkCard Spades Two,
         mkCard Spades Three] 23 1
      = Inr \<lparr>HeroWins = 1, VillainWins = 0, Ties = 0, TrialsRun = 1\<rparr>"
proof (intro conjI)
  show "length (filterDeck [mkCard Hearts Ace, mkCard Hearts King]
             [mkCard Hearts Queen, mkCard Hearts Jack, mkCard Hearts Ten, mkCard Spades Two,
              mkCard Spades Three]) = 45"
    by code_simp
  show "(45::nat) < 2 * nat 23" by simp
  show "SimulateEquity unshuffled [mkCard Hearts Ace, mkCard Hearts King]
        [mkCard Hearts Queen, mkCard Hearts Jack, mkCard Hearts Ten, mkCard Spades Two,
         mkCard Spades Three] 23 1
      = Inr \<lparr>HeroWins = 1, VillainWins = 0, Ties = 0, TrialsRun = 1\<rparr>"
    by code_simp
qed

text \<open>
  C8, amended. When the deck left after the board holds fewer than two cards for every
  opponent, the simulation reports no error: every trial is decided exactly as it would
  be against only the opponents the deck can serve, and every trial is counted.
\<close>

theorem SimulateEquity_short_deck:
  assumes "length heroHole = 2" and "length community \<in> {0, 3, 4, 5}" and "1 \<le> trials"
    and "\<And>w i d. mset (rng w i d) = mset d"
    and "length (filterDeck heroHole community) - (5 - length community) < 2 * nat numOpponents"
  shows "(\<exists>r. SimulateEquity rng heroHole community numOpponents trials = Inr r
            \<and> HeroWins r + VillainWins r + Ties r = TrialsRun r
            \<and> TrialsRun r = trials)
         \<and> (\<forall>w i. simulateOnce (rng w i) heroHole community (filterDeck heroHole community) numOpponents
                  = simulateOnce (rng w i) heroHole community (filterDeck heroHole community)
                      (int ((length (filterDeck heroHole community) - (5 - length community)) div 2)))"
proof
  from assms(5) have "1 \<le> numOpponents" by (cases "numOpponents \<le> 0") simp_all
  from SimulateEquity_total [OF assms(1,2) this assms(3,4)]
  show "\<exists>r. SimulateEquity rng heroHole community numOpponents trials = Inr r
            \<and> HeroWins r + VillainWins r + Ties r = TrialsRun r
            \<and> TrialsRun r = trials"
    by (simp add: balanced_def)
next
  let ?deck = "filterDeck heroHole community"
  let ?k = "5 - length community"
  let ?m = "(length ?deck - ?k) div 2"
  from assms(2) have c5: "length community \<le> 5" by auto
  with assms(1) have big: "45 \<le> length ?deck" by (intro filterDeck_length) simp
  show "\<forall>w i. simulateOnce (rng w i) heroHole community ?deck numOpponents
                  = simulateOnce (rng w i) heroHole community ?deck (int ?m)"
  proof (intro allI)
    fix w i
    have len: "length (rng w i ?deck) = length ?deck"
      using assms(4) by (metis size_mset)
    with big have board: "?k \<le> length (rng w i ?deck)" by simp
    have "?m < nat numOpponents" using assms(5) by simp
    then have d1: "dealt (nat numOpponents) (rng w i ?deck) ?k = ?m"
      by (simp add: dealt_def len)
    have d2: "dealt (nat (int ?m)) (rng w i ?deck) ?k = ?m"
      by (simp add: dealt_def len)
    show "simulateOnce (rng w i) heroHole community ?deck numOpponents
                  = simulateOnce (rng w i) heroHole community ?deck (int ?m)"
      unfolding simulateOnce_eq [of heroHole community "rng w i" ?deck, OF assms(1) c5 board] d1 d2 ..
  qed
qed

theorem SimulateEquity_short_deck_witness:
  "length [mkCard Hearts Ace, mkCard Hearts King] = 2
   \<and> length [mkCard Hearts Queen, mkCard Hearts Jack, mkCard Hearts Ten, mkCard Spades Two,
             mkCard Spades Three] \<in> {0, 3, 4, 5}
   \<and> (1::int) \<le> 1
   \<and> (\<forall>w i d. mset (unshuffled w i d) = mset d)
   \<and> length (filterDeck [mkCard Hearts Ace, mkCard Hearts King]
               [mkCard Hearts Queen, mkCard Hearts Jack, mkCard Hearts Ten, mkCard Spades Two,
                mkCard Spades Three])
       - (5 - length [mkCard Hearts Queen, mkCard Hearts Jack, mkCard Hearts Ten,
                      mkCard Spades Two, mkCard Spades Three]) < 2 * nat 23
   \<and> (\<exists>r. SimulateEquity unshuffled [mkCard Hearts Ace, mkCard Hearts King]
              [mkCard Hearts Queen, mkCard Hearts Jack, mkCard Hearts Ten, mkCard Spades Two,
               mkCard Spades Three] 23 1 = Inr r
            \<and> HeroWins r + VillainWins r + Ties r = TrialsRun r
            \<and> TrialsRun r = 1)"
proof -
  let ?hero = "[mkCard Hearts Ace, mkCard Hearts King]"
  let ?comm = "[mkCard Hearts Queen, mkCard Hearts Jack, mkCard Hearts Ten, mkCard Spades Two,
                mkCard Spades Three]"
  have 1: "length ?hero = 2" by simp
  have 2: "length ?comm \<in> {0, 3, 4, 5}" by simp
  have 3: "(1::int) \<le> 1" by simp
  have 4: "\<And>w i d. mset (unshuffled w i d) = mset d" by (simp add: unshuffled_def)
  have "length (filterDeck ?hero ?comm) = 45" by code_simp
  then have 5: "length (filterDeck ?hero ?comm) - (5 - length ?comm) < 2 * nat 23" by simp
  from SimulateEquity_short_deck [of ?hero ?comm 1 unshuffled 23, OF 1 2 3 4 5]
  have "\<exists>r. SimulateEquity unshuffled ?hero ?comm 23 1 = Inr r
            \<and> HeroWins r + VillainWins r + Ties r = TrialsRun r
            \<and> TrialsRun r = 1"
    by (rule conjunct1)
  with 1 2 3 4 5 show ?thesis by blast
qed

subsection \<open>The caller's cards are left as they were\<close>

lemma evaluate5_st_refines:
  "cardsAt < length st \<Longrightarrow> fst (evaluate5_st cardsAt st) = evaluate5 (st ! cardsAt)"
  by (simp add: evaluate5_st_def evaluate5_def Let_def)

text \<open>The classifier itself does reorder the array it is handed.\<close>

lemma evaluate5_st_sorts_in_place:
  "cardsAt < length st \<Longrightarrow>
     snd (evaluate5_st cardsAt st) ! cardsAt = sortSlice rankDesc (st ! cardsAt)"
  by (simp add: evaluate5_st_def Let_def)

lemma evalCombo_st_refines:
  assumes "cardsAt < length st"
  shows "fst (evalCombo_st cardsAt ix st) = evalCombo (st ! cardsAt) ix"
proof (cases "length ix < 5 \<or> list_ex (\<lambda>i. length (st ! cardsAt) \<le> i) (take 5 ix)")
  case True
  with assms show ?thesis by (auto simp: evalCombo_st_def evalCombo_def Let_def)
next
  case False
  let ?hand = "[st ! cardsAt ! (ix ! 0), st ! cardsAt ! (ix ! 1), st ! cardsAt ! (ix ! 2),
                st ! cardsAt ! (ix ! 3), st ! cardsAt ! (ix ! 4)]"
  from False assms have "evalCombo_st cardsAt ix st = evaluate5_st (length st) (st @ [?hand])"
    by (simp add: evalCombo_st_def Let_def)
  moreover have "fst (evaluate5_st (length st) (st @ [?hand])) = evaluate5 ?hand"
    using evaluate5_st_refines [of "length st" "st @ [?hand]"] by simp
  moreover from False have "evalCombo (st ! cardsAt) ix = evaluate5 ?hand"
    by (simp add: evalCombo_def)
  ultimately show ?thesis by simp
qed

lemma bestLoop_st_refines:
  "cardsAt < length st \<Longrightarrow>
     fst (bestLoop_st cardsAt ix best st) = bestLoop (st ! cardsAt) ix best
     \<and> length st \<le> length (snd (bestLoop_st cardsAt ix best st))
     \<and> take (length st) (snd (bestLoop_st cardsAt ix best st)) = st"
proof (induction cardsAt ix best st rule: bestLoop_st.induct)
  case (1 cardsAt indexes best st)
  show ?case
  proof (cases "nextIndexes indexes")
    case None
    then show ?thesis
      by (subst bestLoop_st.simps, subst (2) bestLoop_st.simps, subst (3) bestLoop_st.simps,
          subst bestLoop.simps) simp
  next
    case (Some ix')
    obtain r st' where ev: "evalCombo_st cardsAt ix' st = (r, st')"
      by (cases "evalCombo_st cardsAt ix' st")
    from evalCombo_st_frame [OF ev] have grow: "length st \<le> length st'"
      and keep: "take (length st) st' = st" by simp_all
    from keep "1.prems" have same: "st' ! cardsAt = st ! cardsAt" by (metis nth_take)
    from grow "1.prems" have at': "cardsAt < length st'" by simp
    have r: "evalCombo (st ! cardsAt) ix' = r"
      using evalCombo_st_refines [OF "1.prems", of ix'] ev by simp
    show ?thesis
    proof (cases r)
      case (Inl e)
      from r Inl have pe: "evalCombo (st ! cardsAt) ix' = Inl e" by simp
      from ev Inl have se: "evalCombo_st cardsAt ix' st = (Inl e, st')" by simp
      have "bestLoop_st cardsAt indexes best st = (Inl e, st')"
        by (subst bestLoop_st.simps) (simp add: Some se)
      moreover have "bestLoop (st ! cardsAt) indexes best = Inl e"
        by (subst bestLoop.simps) (simp add: Some pe)
      ultimately show ?thesis using grow keep by simp
    next
      case (Inr hv)
      let ?best = "if CompareHandValues hv best > 0 then hv else best"
      from r Inr have pe: "evalCombo (st ! cardsAt) ix' = Inr hv" by simp
      from ev Inr have se: "evalCombo_st cardsAt ix' st = (Inr hv, st')" by simp
      have step: "bestLoop_st cardsAt indexes best st = bestLoop_st cardsAt ix' ?best st'"
        by (subst bestLoop_st.simps) (simp add: Some se)
      have step': "bestLoop (st ! cardsAt) indexes best = bestLoop (st ! cardsAt) ix' ?best"
        by (subst bestLoop.simps) (simp add: Some pe)
      from "1.IH" [OF Some ev [symmetric] Inr at']
      have ih: "fst (bestLoop_st cardsAt ix' ?best st') = bestLoop (st' ! cardsAt) ix' ?best"
        and ihl: "length st' \<le> length (snd (bestLoop_st cardsAt ix' ?best st'))"
        and iht: "take (length st') (snd (bestLoop_st cardsAt ix' ?best st')) = st'"
        by simp_all
      have "take (length st) (snd (bestLoop_st cardsAt ix' ?best st'))
          = take (length st) (take (length st') (snd (bestLoop_st cardsAt ix' ?best st')))"
        using grow by (simp add: min_def)
      also have "\<dots> = st" unfolding iht by (rule keep)
      finally have "take (length st) (snd (bestLoop_st cardsAt ix' ?best st')) = st" .
      with ih ihl grow show ?thesis
        unfolding step step' same by simp
    qed
  qed
qed

text \<open>
  C9. \<open>EvaluateBestHand\<close> leaves the caller's cards as they were: the array at
  \<open>cardsAt\<close> holds the same cards in the same order after the call, and so does every
  array that existed before it; each \<open>evaluate5\<close> sorts a freshly allocated copy. The
  value returned is the one the evaluator computes from the cards alone.
\<close>

theorem EvaluateBestHand_st_frame:
  assumes "cardsAt < length st"
  shows "snd (EvaluateBestHand_st cardsAt st) ! cardsAt = st ! cardsAt
         \<and> take (length st) (snd (EvaluateBestHand_st cardsAt st)) = st
         \<and> fst (EvaluateBestHand_st cardsAt st) = EvaluateBestHand (st ! cardsAt)"
proof -
  have main: "take (length st) (snd (EvaluateBestHand_st cardsAt st)) = st
         \<and> fst (EvaluateBestHand_st cardsAt st) = EvaluateBestHand (st ! cardsAt)"
  proof (cases "length (st ! cardsAt) = 7")
    case False
    with assms show ?thesis by (simp add: EvaluateBestHand_st_def EvaluateBestHand_def)
  next
    case True
    obtain r st' where ev: "evalCombo_st cardsAt [0, 1, 2, 3, 4] st = (r, st')"
      by (cases "evalCombo_st cardsAt [0, 1, 2, 3, 4] st")
    from evalCombo_st_frame [OF ev] have grow: "length st \<le> length st'"
      and keep: "take (length st) st' = st" by simp_all
    from keep assms have same: "st' ! cardsAt = st ! cardsAt" by (metis nth_take)
    from grow assms have at': "cardsAt < length st'" by simp
    have r: "evalCombo (st ! cardsAt) [0, 1, 2, 3, 4] = r"
      using evalCombo_st_refines [OF assms, of "[0, 1, 2, 3, 4]"] ev by simp
    show ?thesis
    proof (cases r)
      case (Inl e)
      from r Inl have pe: "evalCombo (st ! cardsAt) [0, 1, 2, 3, 4] = Inl e" by simp
      from ev Inl have se: "evalCombo_st cardsAt [0, 1, 2, 3, 4] st = (Inl e, st')" by simp
      have "EvaluateBestHand_st cardsAt st = (Inl e, st')"
        unfolding EvaluateBestHand_st_def se using True assms by simp
      moreover have "EvaluateBestHand (st ! cardsAt) = Inl e"
        unfolding EvaluateBestHand_def pe using True by simp
      ultimately show ?thesis using keep by simp
    next
      case (Inr best)
      from r Inr have pe: "evalCombo (st ! cardsAt) [0, 1, 2, 3, 4] = Inr best" by simp
      from ev Inr have se: "evalCombo_st cardsAt [0, 1, 2, 3, 4] st = (Inr best, st')" by simp
      have st: "EvaluateBestHand_st cardsAt st = bestLoop_st cardsAt [0, 1, 2, 3, 4] best st'"
        unfolding EvaluateBestHand_st_def se using True assms by simp
      have pure: "EvaluateBestHand (st ! cardsAt) = bestLoop (st ! cardsAt) [0, 1, 2, 3, 4] best"
        unfolding EvaluateBestHand_def pe using True by simp
      from bestLoop_st_refines [OF at', of "[0, 1, 2, 3, 4]" best]
      have ih: "fst (bestLoop_st cardsAt [0, 1, 2, 3, 4] best st')
            = bestLoop (st' ! cardsAt) [0, 1, 2, 3, 4] best"
        and iht: "take (length st') (snd (bestLoop_st cardsAt [0, 1, 2, 3, 4] best st')) = st'"
        by simp_all
      have "take (length st) (snd (bestLoop_st cardsAt [0, 1, 2, 3, 4] best st'))
          = take (length st) (take (length st') (snd (bestLoop_st cardsAt [0, 1, 2, 3, 4] best st')))"
        using grow by (simp add: min_def)
      also have "\<dots> = st" unfolding iht by (rule keep)
      finally show ?thesis
        unfolding st pure using ih same by simp
    qed
  qed
  then have "take (length st) (snd (EvaluateBestHand_st cardsAt st)) ! cardsAt = st ! cardsAt"
    by simp
  then have "snd (EvaluateBestHand_st cardsAt st) ! cardsAt = st ! cardsAt"
    using assms by simp
  with main show ?thesis by simp
qed

lemma sorted_wheel_cards:
  "sortSlice rankDesc [mkCard Hearts Ace, mkCard Diamonds Two, mkCard Clubs Three, mkCard Spades Four,
                       mkCard Hearts Five]
   = [mkCard Hearts Ace, mkCard Hearts Five, mkCard Spades Four, mkCard Clubs Three,
      mkCard Diamonds Two]"
  by code_simp

theorem EvaluateBestHand_st_frame_witness:
  "(0::nat) < length [[mkCard Hearts Ace, mkCard Diamonds Two, mkCard Clubs Three,
                       mkCard Spades Four, mkCard Hearts Five, mkCard Diamonds Nine,
                       mkCard Clubs King]]
   \<and> snd (EvaluateBestHand_st 0 [[mkCard Hearts Ace, mkCard Diamonds Two, mkCard Clubs Three,
                                   mkCard Spades Four, mkCard Hearts Five, mkCard Diamonds Nine,
                                   mkCard Clubs King]]) ! 0
      = [mkCard Hearts Ace, mkCard Diamonds Two, mkCard Clubs Three, mkCard Spades Four,
         mkCard Hearts Five, mkCard Diamonds Nine, mkCard Clubs King]
   \<and> fst (EvaluateBestHand_st 0 [[mkCard Hearts Ace, mkCard Diamonds Two, mkCard Clubs Three,
                                   mkCard Spades Four, mkCard Hearts Five, mkCard Diamonds Nine,
                                   mkCard Clubs King]])
      = Inr \<lparr>Category = Straight, Kickers = [Five]\<rparr>
   \<and> snd (evaluate5_st 0 [[mkCard Hearts Ace, mkCard Diamonds Two, mkCard Clubs Three,
                            mkCard Spades Four, mkCard Hearts Five]]) ! 0
      = [mkCard Hearts Ace, mkCard Hearts Five, mkCard Spades Four, mkCard Clubs Three,
         mkCard Diamonds Two]"
proof -
  let ?cards = "[mkCard Hearts Ace, mkCard Diamonds Two, mkCard Clubs Three, mkCard Spades Four,
                 mkCard Hearts Five, mkCard Diamonds Nine, mkCard Clubs King]"
  have 1: "(0::nat) < length [?cards]" by simp
  from EvaluateBestHand_st_frame [OF 1]
  have "snd (EvaluateBestHand_st 0 [?cards]) ! 0 = ?cards"
    and "fst (EvaluateBestHand_st 0 [?cards]) = EvaluateBestHand ?cards"
    by simp_all
  moreover have "snd (evaluate5_st 0 [[mkCard Hearts Ace, mkCard Diamonds Two, mkCard Clubs Three,
                            mkCard Spades Four, mkCard Hearts Five]]) ! 0
      = [mkCard Hearts Ace, mkCard Hearts Five, mkCard Spades Four, mkCard Clubs Three,
         mkCard Diamonds Two]"
    using evaluate5_st_sorts_in_place [of 0 "[[mkCard Hearts Ace, mkCard Diamonds Two,
        mkCard Clubs Three, mkCard Spades Four, mkCard Hearts Five]]"]
    by (simp add: sorted_wheel_cards)
  ultimately show ?thesis using 1 fixture4 by simp
qed

end
